theory Spec2Isabelle
  imports Main "HOL-Library.Word" "HOL-Library.Sublist"
begin

text \<open>
  The stream loop of \<open>App.jsx\<close>: \<open>startDiagnosis\<close> reads the body of a response chunk by
  chunk, cuts the text into lines, and folds every line that starts with \<open>data: \<close> into
  the list of messages (agent turns and status turns) and the differential snapshot of
  the component; \<open>stopDiagnosis\<close> aborts the read. The theory models the strings and the
  regular expressions of the loop, the loop itself with its handlers, and proves the
  properties of the specification about them.
\<close>

section \<open>JavaScript strings\<close>

text \<open>
  A JavaScript string is a sequence of 16-bit UTF-16 code units; \<open>length\<close>, \<open>slice\<close>,
  \<open>includes\<close> and a regular expression without the \<open>u\<close> flag all work on code units.
  An emoji outside the basic plane is two units (a surrogate pair).
  ASCII literals of the source are written \<open>js ''...''\<close>; other characters are written
  as their code units.
\<close>

type_synonym jsstring = "16 word list"

definition js :: "string \<Rightarrow> jsstring" where
  "js s = map of_char s"

text \<open>The line feed, the separator of \<open>split('\n')\<close> and of the joined content.\<close>

definition LF :: "16 word" where
  "LF = 0x0A"

text \<open>
  ECMAScript LineTerminator: the code units the regular-expression dot does not match.
\<close>

definition isLineTerminator :: "16 word \<Rightarrow> bool" where
  "isLineTerminator c = (c = 0x0A \<or> c = 0x0D \<or> c = 0x2028 \<or> c = 0x2029)"

text \<open>
  ECMAScript WhiteSpace and LineTerminator: what \<open>String.prototype.trim\<close> removes and
  what \<open>\s\<close> matches.
\<close>

definition isWhiteSpace :: "16 word \<Rightarrow> bool" where
  "isWhiteSpace c =
     (c = 0x09 \<or> c = 0x0A \<or> c = 0x0B \<or> c = 0x0C \<or> c = 0x0D \<or> c = 0x20 \<or> c = 0xA0
      \<or> c = 0x1680 \<or> (0x2000 \<le> c \<and> c \<le> 0x200A) \<or> c = 0x2028 \<or> c = 0x2029
      \<or> c = 0x202F \<or> c = 0x205F \<or> c = 0x3000 \<or> c = 0xFEFF)"

text \<open>\<open>\d\<close>.\<close>

definition isDigit :: "16 word \<Rightarrow> bool" where
  "isDigit c = (0x30 \<le> c \<and> c \<le> 0x39)"

definition trim :: "jsstring \<Rightarrow> jsstring" where
  "trim s = rev (dropWhile isWhiteSpace (rev (dropWhile isWhiteSpace s)))"

definition startsWith :: "jsstring \<Rightarrow> jsstring \<Rightarrow> bool" where
  "startsWith s p = prefix p s"

text \<open>\<open>s.includes(p)\<close>: \<open>p\<close> occurs in \<open>s\<close> at some position.\<close>

fun includes_str :: "jsstring \<Rightarrow> jsstring \<Rightarrow> bool" where
  "includes_str [] p = (p = [])"
| "includes_str (c # r) p = (prefix p (c # r) \<or> includes_str r p)"

text \<open>
  \<open>s.split('\n')\<close>: the pieces between line feeds, always at least one piece; the last
  piece is what follows the last line feed. A unit that is not a line feed joins the
  first piece of the rest (the split of the rest is never empty, so the case of an empty
  list does not arise).
\<close>

fun split_newline :: "jsstring \<Rightarrow> jsstring list" where
  "split_newline [] = [[]]"
| "split_newline (c # r) =
     (if c = LF then [] # split_newline r
      else (case split_newline r of
              [] \<Rightarrow> [[c]]
            | piece # pieces \<Rightarrow> (c # piece) # pieces))"

text \<open>
  \<open>xs.findIndex(P)\<close>: the position of the first element that satisfies \<open>P\<close>;
  \<open>None\<close> is the source's \<open>-1\<close>.
\<close>

fun findIndex :: "('a \<Rightarrow> bool) \<Rightarrow> 'a list \<Rightarrow> nat option" where
  "findIndex P [] = None"
| "findIndex P (x # xs) = (if P x then Some 0 else map_option Suc (findIndex P xs))"

text \<open>
  The first success among the candidates tried in order: the order in which a
  backtracking matcher tries the lengths of a greedy quantifier.
\<close>

fun first_some :: "('a \<Rightarrow> 'b option) \<Rightarrow> 'a list \<Rightarrow> 'b option" where
  "first_some f [] = None"
| "first_some f (x # xs) = (case f x of Some y \<Rightarrow> Some y | None \<Rightarrow> first_some f xs)"

section \<open>The regular expressions of the stream loop\<close>

subsection \<open>\<open>cleanAnsi\<close>: \<open>str.replace(/\u001b\[[0-9;]*m/g, '')\<close>\<close>

text \<open>
  \<open>ansi_at s\<close> is the input left after an SGR sequence that starts at the head of \<open>s\<close>:
  ESC, \<open>[\<close>, the longest run of digits and semicolons, \<open>m\<close>. The run is followed by
  \<open>m\<close>, which is not in the class, so only the longest run can match.
\<close>

definition isSgrParam :: "16 word \<Rightarrow> bool" where
  "isSgrParam c = (isDigit c \<or> c = 0x3B)"

definition ansi_at :: "jsstring \<Rightarrow> jsstring option" where
  "ansi_at s =
     (case s of
        e # b # r \<Rightarrow>
          if e = 0x1B \<and> b = 0x5B
          then (case dropWhile isSgrParam r of
                  m # r' \<Rightarrow> if m = 0x6D then Some r' else None
                | [] \<Rightarrow> None)
          else None
      | _ \<Rightarrow> None)"

lemma ansi_at_shorter: "ansi_at s = Some r \<Longrightarrow> length r < length s"
proof -
  assume a: "ansi_at s = Some r"
  then obtain e b t where s: "s = e # b # t"
    by (cases s; cases "tl s") (auto simp: ansi_at_def)
  from a s obtain m where d: "dropWhile isSgrParam t = m # r"
    by (auto simp: ansi_at_def split: if_splits list.splits)
  have "length (dropWhile isSgrParam t) \<le> length t"
    by (rule length_dropWhile_le)
  with d s show ?thesis by simp
qed

function cleanAnsi :: "jsstring \<Rightarrow> jsstring" where
  "cleanAnsi [] = []"
| "cleanAnsi (c # r) =
     (case ansi_at (c # r) of
        Some r' \<Rightarrow> cleanAnsi r'
      | None \<Rightarrow> c # cleanAnsi r)"
  by pat_completeness auto
termination
  by (relation "measure length") (auto dest: ansi_at_shorter)

subsection \<open>\<open>dxRegex\<close>: \<open>/(?:\d+\.\s+|- )([^:]+?)(?:\s+Probability: |:\s+)(\d+)%/g\<close>\<close>

text \<open>
  \<open>(\d+)%\<close> at the head of \<open>s\<close>: the digits and the input after the percent sign.
  A percent sign is not a digit, so the digits are the whole run.
\<close>

definition digits_percent :: "jsstring \<Rightarrow> (jsstring \<times> jsstring) option" where
  "digits_percent s =
     (case dropWhile isDigit s of
        p # r \<Rightarrow> if takeWhile isDigit s \<noteq> [] \<and> p = 0x25 then Some (takeWhile isDigit s, r) else None
      | [] \<Rightarrow> None)"

text \<open>
  \<open>(?:\s+Probability: |:\s+)(\d+)%\<close> at the head of \<open>s\<close>. In the first alternative the
  white space is followed by \<open>P\<close>, in the second by a digit, so in both only the longest
  run of white space can match.
\<close>

definition dx_separator :: "jsstring \<Rightarrow> (jsstring \<times> jsstring) option" where
  "dx_separator s =
     (case (if takeWhile isWhiteSpace s \<noteq> []
               \<and> prefix (js ''Probability: '') (dropWhile isWhiteSpace s)
            then digits_percent (drop 13 (dropWhile isWhiteSpace s)) else None) of
        Some m \<Rightarrow> Some m
      | None \<Rightarrow>
          (case s of
             c # r \<Rightarrow>
               if c = 0x3A \<and> takeWhile isWhiteSpace r \<noteq> []
               then digits_percent (dropWhile isWhiteSpace r) else None
           | [] \<Rightarrow> None))"

text \<open>
  The lazy group \<open>([^:]+?)\<close>: \<open>acc\<close> is what the group holds so far (at least one unit);
  the rest of the pattern is tried first, and the group takes one more unit that is not
  a colon only when that fails. The result is the group, the digits and the input left.
\<close>

fun dx_label :: "jsstring \<Rightarrow> jsstring \<Rightarrow> (jsstring \<times> jsstring \<times> jsstring) option" where
  "dx_label acc [] = None"
| "dx_label acc (c # r) =
     (case dx_separator (c # r) of
        Some (ds, rest) \<Rightarrow> Some (acc, ds, rest)
      | None \<Rightarrow> if c = 0x3A then None else dx_label (acc @ [c]) r)"

definition dx_body :: "jsstring \<Rightarrow> (jsstring \<times> jsstring \<times> jsstring) option" where
  "dx_body s = (case s of [] \<Rightarrow> None | c # r \<Rightarrow> if c = 0x3A then None else dx_label [c] r)"

text \<open>
  The first alternative of the head, \<open>\d+\.\s+\<close>: the whole run of digits (a dot is not
  a digit), the dot, and then white space that the group \<open>[^:]\<close> can also match, so the
  matcher tries the longest run first and gives units back one at a time, down to one.
\<close>

definition dx_numbered :: "jsstring \<Rightarrow> (jsstring \<times> jsstring \<times> jsstring) option" where
  "dx_numbered s =
     (if takeWhile isDigit s = [] then None
      else (case dropWhile isDigit s of
              d # r \<Rightarrow>
                if d = 0x2E
                then first_some (\<lambda>k. dx_body (drop k r))
                       (rev [1 ..< Suc (length (takeWhile isWhiteSpace r))])
                else None
            | [] \<Rightarrow> None))"

text \<open>The second alternative of the head, the literal \<open>- \<close>.\<close>

definition dx_dashed :: "jsstring \<Rightarrow> (jsstring \<times> jsstring \<times> jsstring) option" where
  "dx_dashed s = (if prefix (js ''- '') s then dx_body (drop 2 s) else None)"

definition dx_at :: "jsstring \<Rightarrow> (jsstring \<times> jsstring \<times> jsstring) option" where
  "dx_at s = (case dx_numbered s of Some m \<Rightarrow> Some m | None \<Rightarrow> dx_dashed s)"

lemma digits_percent_shorter: "digits_percent s = Some (ds, r) \<Longrightarrow> length r < length s"
proof -
  assume a: "digits_percent s = Some (ds, r)"
  then obtain p where d: "dropWhile isDigit s = p # r"
    by (auto simp: digits_percent_def split: list.splits if_splits)
  have "length (dropWhile isDigit s) \<le> length s"
    by (rule length_dropWhile_le)
  with d show ?thesis by simp
qed

lemma dx_separator_shorter: "dx_separator s = Some (ds, r) \<Longrightarrow> length r < length s"
proof -
  assume a: "dx_separator s = Some (ds, r)"
  have w: "length (dropWhile isWhiteSpace t) \<le> length t" for t
    by (rule length_dropWhile_le)
  from a consider
      (prob) "digits_percent (drop 13 (dropWhile isWhiteSpace s)) = Some (ds, r)"
    | (colon) c t where "s = c # t" "digits_percent (dropWhile isWhiteSpace t) = Some (ds, r)"
    by (auto simp: dx_separator_def split: list.splits if_splits option.splits)
  then show ?thesis
  proof cases
    case prob
    from digits_percent_shorter [OF prob] w [of s] show ?thesis by simp
  next
    case colon
    from digits_percent_shorter [OF colon(2)] w [of t] colon(1) show ?thesis by simp
  qed
qed

lemma dx_label_shorter: "dx_label acc s = Some (g, ds, r) \<Longrightarrow> length r < length s"
proof (induction s arbitrary: acc)
  case Nil
  then show ?case by simp
next
  case (Cons c t)
  show ?case
  proof (cases "dx_separator (c # t)")
    case None
    with Cons.prems have "dx_label (acc @ [c]) t = Some (g, ds, r)"
      by (simp split: if_splits)
    from Cons.IH [OF this] show ?thesis by simp
  next
    case (Some m)
    with Cons.prems have "dx_separator (c # t) = Some (ds, r)"
      by (cases m) simp
    then show ?thesis by (rule dx_separator_shorter)
  qed
qed

lemma dx_body_shorter: "dx_body s = Some (g, ds, r) \<Longrightarrow> length r < length s"
  by (cases s) (auto simp: dx_body_def split: if_splits dest: dx_label_shorter)

lemma first_some_Some: "first_some f xs = Some y \<Longrightarrow> \<exists>x \<in> set xs. f x = Some y"
  by (induction xs) (auto split: option.splits)

lemma dx_numbered_shorter: "dx_numbered s = Some (g, ds, r) \<Longrightarrow> length r < length s"
proof -
  assume a: "dx_numbered s = Some (g, ds, r)"
  then obtain d t where t: "dropWhile isDigit s = d # t"
    and f: "first_some (\<lambda>k. dx_body (drop k t))
              (rev [1 ..< Suc (length (takeWhile isWhiteSpace t))]) = Some (g, ds, r)"
    by (auto simp: dx_numbered_def split: list.splits if_splits)
  from first_some_Some [OF f] obtain k where "dx_body (drop k t) = Some (g, ds, r)"
    by auto
  then have "length r < length (drop k t)" by (rule dx_body_shorter)
  moreover have "length (dropWhile isDigit s) \<le> length s"
    by (rule length_dropWhile_le)
  ultimately show ?thesis using t by simp
qed

lemma dx_at_shorter: "dx_at s = Some (g, ds, r) \<Longrightarrow> length r < length s"
proof -
  assume a: "dx_at s = Some (g, ds, r)"
  then consider "dx_numbered s = Some (g, ds, r)" | "dx_body (drop 2 s) = Some (g, ds, r)"
    by (auto simp: dx_at_def dx_dashed_def split: option.splits if_splits)
  then show ?thesis
  proof cases
    case 1
    then show ?thesis by (rule dx_numbered_shorter)
  next
    case 2
    from dx_body_shorter [OF 2] show ?thesis by simp
  qed
qed

text \<open>
  \<open>[...content.matchAll(dxRegex)]\<close>: the matches from left to right, each search starting
  where the match before it ended; a position without a match is skipped. Each match is
  the pair of its two groups.
\<close>

function dx_matches :: "jsstring \<Rightarrow> (jsstring \<times> jsstring) list" where
  "dx_matches [] = []"
| "dx_matches (c # r) =
     (case dx_at (c # r) of
        Some (g, ds, rest) \<Rightarrow> (g, ds) # dx_matches rest
      | None \<Rightarrow> dx_matches r)"
  by pat_completeness auto
termination
  by (relation "measure length") (auto dest: dx_at_shorter)

subsection \<open>The agent header: \<open>content.match(/Agent Name:\s*([a-zA-Z\.\- ]+)/)\<close>\<close>

definition isNameChar :: "16 word \<Rightarrow> bool" where
  "isNameChar c =
     ((0x61 \<le> c \<and> c \<le> 0x7A) \<or> (0x41 \<le> c \<and> c \<le> 0x5A) \<or> c = 0x2E \<or> c = 0x2D \<or> c = 0x20)"

text \<open>
  The match that starts at the head of \<open>s\<close>, as its group. \<open>\s*\<close> takes the longest run
  of white space first; a space is also a name character, so when no name character
  follows the run the matcher gives white space back, one unit at a time, down to none.
  The group is then the longest run of name characters from there.
\<close>

definition agent_at :: "jsstring \<Rightarrow> jsstring option" where
  "agent_at s =
     (if prefix (js ''Agent Name:'') s
      then first_some
             (\<lambda>k. if takeWhile isNameChar (drop k (drop 11 s)) \<noteq> []
                   then Some (takeWhile isNameChar (drop k (drop 11 s))) else None)
             (rev [0 ..< Suc (length (takeWhile isWhiteSpace (drop 11 s)))])
      else None)"

text \<open>The leftmost match: \<open>agentMatch[1]\<close>, or \<open>None\<close> for \<open>null\<close>.\<close>

fun agentMatch :: "jsstring \<Rightarrow> jsstring option" where
  "agentMatch [] = None"
| "agentMatch (c # r) =
     (case agent_at (c # r) of Some g \<Rightarrow> Some g | None \<Rightarrow> agentMatch r)"

subsection \<open>The status test: \<open>content.match(/^.{0,5}[...]/)\<close>\<close>

text \<open>
  The expression has no \<open>u\<close> flag, so its class holds code units: the three glyphs of
  the basic plane (U+2705, U+2B50, U+274C) and both halves of every surrogate pair of
  the thirteen other glyphs, that is the high surrogates D83C, D83D, D83E and the low
  surrogates of U+1F914, U+1F4B0, U+1FA7A, U+1F52C, U+1F9E0, U+1F91D, U+1F3C1, U+1F4CA,
  U+1F4C8, U+1F4C9, U+1F3E5, U+1F9EC, U+1F9EA.
\<close>

definition isStatusGlyph :: "16 word \<Rightarrow> bool" where
  "isStatusGlyph c =
     (c = 0xD83E \<or> c = 0xDD14 \<or> c = 0xD83D \<or> c = 0xDCB0 \<or> c = 0xDE7A \<or> c = 0xDD2C
      \<or> c = 0xDDE0 \<or> c = 0xDD1D \<or> c = 0x2705 \<or> c = 0xD83C \<or> c = 0xDFC1 \<or> c = 0x2B50
      \<or> c = 0x274C \<or> c = 0xDCCA \<or> c = 0xDCC8 \<or> c = 0xDCC9 \<or> c = 0xDFE5 \<or> c = 0xDDEC
      \<or> c = 0xDDEA)"

text \<open>
  \<open>status_scan n s\<close>: a class unit stands in \<open>s\<close> after at most \<open>n\<close> units, none of them
  a line terminator (the dot does not match one).
\<close>

fun status_scan :: "nat \<Rightarrow> jsstring \<Rightarrow> bool" where
  "status_scan n [] = False"
| "status_scan n (c # r) =
     (isStatusGlyph c \<or> (0 < n \<and> \<not> isLineTerminator c \<and> status_scan (n - 1) r))"

definition isStatus :: "jsstring \<Rightarrow> bool" where
  "isStatus s = status_scan 5 s"

subsection \<open>The frame characters: \<open>/[...]/g\<close> of the six box-drawing glyphs, and \<open>/[\s\-_]/g\<close>\<close>

definition isBoxChar :: "16 word \<Rightarrow> bool" where
  "isBoxChar c =
     (c = 0x256D \<or> c = 0x256E \<or> c = 0x256F \<or> c = 0x2570 \<or> c = 0x2500 \<or> c = 0x2502)"

definition isFiller :: "16 word \<Rightarrow> bool" where
  "isFiller c = (isWhiteSpace c \<or> c = 0x2D \<or> c = 0x5F)"

section \<open>The data of a session\<close>

text \<open>
  A message id is made in three ways: \<open>Date.now() + Math.random()\<close>, a double, kept as
  its 64 bits (the sum is positive and finite, so \<open>===\<close> on two such ids is equality of
  the bits); \<open>'system-' + Date.now()\<close>, a string, kept as the clock value in it; and
  \<open>Date.now()\<close> alone in the handler of a cancellation, after which no id is compared.
\<close>

datatype ident = RandomId "64 word" | SystemId int | StampId int

text \<open>
  A message is an object with the fields \<open>id, agent, content, timestamp\<close> or with the
  fields \<open>id, status, timestamp\<close>. The id of an agent message is read from the local
  variable \<open>lastMessageId\<close>, and the agent of the default message from
  \<open>currentAgentName\<close>; both variables start as \<open>null\<close>, so these two fields hold
  \<open>None\<close> for \<open>null\<close>.
\<close>

datatype message =
    AgentTurn "ident option" "jsstring option" jsstring jsstring
  | StatusTurn ident jsstring jsstring

fun msg_id :: "message \<Rightarrow> ident option" where
  "msg_id (AgentTurn i a c t) = i"
| "msg_id (StatusTurn i s t) = Some i"

record diagnosis_item =
  diagnosis :: jsstring
  probability :: jsstring

record snapshot =
  items :: "diagnosis_item list"
  full :: jsstring

text \<open>
  The clock and the random source are inputs of the run; \<open>env k\<close> is what the \<open>k\<close>-th
  reading returns: \<open>Date.now()\<close>, the double \<open>Date.now() + Math.random()\<close>, and the text
  of \<open>new Date().toLocaleTimeString([], ...)\<close>. A reading is taken where the source
  evaluates the expression: at the assignment of \<open>lastMessageId\<close> in the loop body, and
  inside an updater when the updater runs.
\<close>

record reading =
  date_now :: int
  now_plus_random :: "64 word"
  locale_time :: jsstring

type_synonym env = "nat \<Rightarrow> reading"

text \<open>A thrown value, with the two fields the handler reads.\<close>

datatype js_error = JsError (err_name: jsstring) (err_message: jsstring)

text \<open>
  The functions that the loop passes to \<open>setMessages\<close>. Each is a closure: the constants
  of the iteration that made it (\<open>agentName\<close>, \<open>content\<close>, \<open>cleanContent\<close>) are fixed in
  it and are its arguments here, while \<open>lastMessageId\<close> and \<open>currentAgentName\<close> are
  variables declared outside the loop, shared by all closures, and are read when the
  closure runs.
\<close>

datatype update =
    AppendAgent jsstring
  | AppendStatus jsstring
  | AppendDefault
  | AppendContent jsstring
  | AppendStopped

text \<open>
  The state of the component (\<open>useState\<close> and \<open>useRef\<close>). \<open>messages\<close> is the list as of
  the last render. The other setters are called with a value, which every later render
  shows whatever else is queued, so the model stores the value at the call.
  \<open>abortControllerRef\<close> holds whether the ref is set.
\<close>

record app =
  messages :: "message list"
  differential :: "snapshot option"
  isStreaming :: bool
  error :: "jsstring option"
  abortControllerRef :: bool

text \<open>
  The state a run of \<open>startDiagnosis\<close> works on: the component state, the local
  variables of the loop that the handling of a line reads and writes, the number of
  readings of the clock so far, and the updaters given to \<open>setMessages\<close> since the last
  render, in the order of the calls. React queues an updater and runs it during the
  next render.
\<close>

record run = app +
  currentAgentName :: "jsstring option"
  lastMessageId :: "ident option"
  tick :: nat
  pending :: "update list"

section \<open>The updaters and the render\<close>

definition STOPPED :: jsstring where
  "STOPPED = [0xD83C, 0xDFC1] @ js '' Process stopped by user.''"

text \<open>
  Reading \<open>content\<close> of a status message gives \<open>undefined\<close>, and \<open>undefined.split\<close>
  throws a TypeError (the message is the engine's).
\<close>

definition split_of_undefined :: js_error where
  "split_of_undefined =
     JsError (js ''TypeError'') (js ''Cannot read properties of undefined (reading 'split')'')"

text \<open>
  The updater of the content block: the first message whose id is \<open>lastMessageId\<close>
  gets the line appended, unless the line equals the last line of its content.
\<close>

definition append_line :: "message list \<Rightarrow> ident option \<Rightarrow> jsstring \<Rightarrow> js_error + message list" where
  "append_line prev lastId cleanContent =
     (case findIndex (\<lambda>m. msg_id m = lastId) prev of
        None \<Rightarrow> Inr prev
      | Some msgIndex \<Rightarrow>
          (case prev ! msgIndex of
             StatusTurn i st t \<Rightarrow> Inl split_of_undefined
           | AgentTurn i a existingContent t \<Rightarrow>
               if last (split_newline existingContent) \<noteq> cleanContent
               then Inr (prev[msgIndex := AgentTurn i a
                           (if existingContent \<noteq> [] then existingContent @ [LF] @ cleanContent
                            else cleanContent) t])
               else Inr prev))"

text \<open>
  One updater, run on the list \<open>prev\<close> with the clock at its \<open>t\<close>-th reading, while the
  two shared variables hold \<open>cur\<close> and \<open>lastId\<close>. An updater that makes a message reads
  the clock once.
\<close>

fun run_update ::
  "env \<Rightarrow> jsstring option \<Rightarrow> ident option \<Rightarrow> update \<Rightarrow> message list \<times> nat
     \<Rightarrow> js_error + message list \<times> nat" where
  "run_update env cur lastId (AppendAgent agentName) (prev, t) =
     Inr (prev @ [AgentTurn lastId (Some agentName) [] (locale_time (env t))], Suc t)"
| "run_update env cur lastId (AppendStatus content) (prev, t) =
     Inr (prev @ [StatusTurn (RandomId (now_plus_random (env t))) content (locale_time (env t))],
          Suc t)"
| "run_update env cur lastId AppendDefault (prev, t) =
     Inr (prev @ [AgentTurn lastId cur [] (locale_time (env t))], Suc t)"
| "run_update env cur lastId (AppendContent cleanContent) (prev, t) =
     (case append_line prev lastId cleanContent of
        Inl err \<Rightarrow> Inl err
      | Inr newMessages \<Rightarrow> Inr (newMessages, t))"
| "run_update env cur lastId AppendStopped (prev, t) =
     Inr (prev @ [StatusTurn (StampId (date_now (env t))) STOPPED (locale_time (env t))], Suc t)"

fun run_updates ::
  "env \<Rightarrow> jsstring option \<Rightarrow> ident option \<Rightarrow> update list \<Rightarrow> message list \<times> nat
     \<Rightarrow> js_error + message list \<times> nat" where
  "run_updates env cur lastId [] st = Inr st"
| "run_updates env cur lastId (u # us) st =
     (case run_update env cur lastId u st of
        Inl err \<Rightarrow> Inl err
      | Inr st' \<Rightarrow> run_updates env cur lastId us st')"

text \<open>
  A render: the queued updaters run in the order of their calls, each once, and read the
  shared variables as they are at the render. When one throws, nothing of the render is
  kept and React unmounts the component: \<open>Inl\<close> holds the error and the state before
  the render.
\<close>

definition render :: "env \<Rightarrow> run \<Rightarrow> (js_error \<times> run) + run" where
  "render env s =
     (case run_updates env (currentAgentName s) (lastMessageId s) (pending s) (messages s, tick s) of
        Inl err \<Rightarrow> Inl (err, s)
      | Inr (newMessages, t) \<Rightarrow> Inr (s\<lparr>messages := newMessages, tick := t, pending := []\<rparr>))"

text \<open>The state a render leaves, whether it went through or threw.\<close>

fun state_of :: "(js_error \<times> run) + run \<Rightarrow> run" where
  "state_of (Inl (err, s)) = s"
| "state_of (Inr s) = s"

section \<open>The handling of one line (the body of the \<open>for\<close> loop)\<close>

subsection \<open>Differential detection\<close>

definition TOP_MARKER :: jsstring where
  "TOP_MARKER = [0xFFFD] @ js '' TOP DIFFERENTIAL DIAGNOSES''"

definition UPDATED_MARKER :: jsstring where
  "UPDATED_MARKER = [0xD83D, 0xDCCA] @ js '' Differential Diagnosis Updated''"

definition topDiagnoses :: "jsstring \<Rightarrow> diagnosis_item list" where
  "topDiagnoses content =
     map (\<lambda>(g, ds). \<lparr>diagnosis = trim g, probability = ds @ js ''%''\<rparr>)
       (take 3 (dx_matches content))"

definition detect_differential :: "run \<Rightarrow> jsstring \<Rightarrow> run" where
  "detect_differential s content =
     (if includes_str content TOP_MARKER \<or> includes_str content UPDATED_MARKER
      then (if dx_matches content \<noteq> []
            then s\<lparr>differential := Some \<lparr>items = topDiagnoses content, full = content\<rparr>\<rparr>
            else s)
      else s)"

subsection \<open>Agent detection\<close>

text \<open>
  \<open>Some\<close> is the state at the \<open>continue\<close> of a line that matches the header pattern;
  \<open>None\<close> means that the pattern did not match and the line goes on to the next test.
  The two variables are assigned in the loop body, where the clock is read for the id;
  the message is made by the queued updater.
\<close>

definition detect_agent :: "env \<Rightarrow> run \<Rightarrow> jsstring \<Rightarrow> run option" where
  "detect_agent env s content =
     (case agentMatch content of
        None \<Rightarrow> None
      | Some g \<Rightarrow>
          (let agentName = trim g in
           if currentAgentName s \<noteq> Some agentName
           then Some (s\<lparr>currentAgentName := Some agentName,
                        lastMessageId := Some (RandomId (now_plus_random (env (tick s)))),
                        tick := Suc (tick s),
                        pending := pending s @ [AppendAgent agentName]\<rparr>)
           else Some s))"

subsection \<open>Status detection\<close>

definition detect_status :: "run \<Rightarrow> jsstring \<Rightarrow> run option" where
  "detect_status s content =
     (if isStatus content \<and> length content < 150 \<and> \<not> includes_str content (js ''Agent Name'')
      then Some (s\<lparr>pending := pending s @ [AppendStatus content]\<rparr>)
      else None)"

subsection \<open>Content accumulation\<close>

text \<open>\<open>!currentAgentName\<close>: the name is \<open>null\<close> or the empty string.\<close>

definition no_agent :: "jsstring option \<Rightarrow> bool" where
  "no_agent n = (case n of None \<Rightarrow> True | Some a \<Rightarrow> a = [])"

definition default_agent :: "env \<Rightarrow> run \<Rightarrow> run" where
  "default_agent env s =
     (if no_agent (currentAgentName s)
      then s\<lparr>currentAgentName := Some (js ''System Orchestrator''),
              lastMessageId := Some (SystemId (date_now (env (tick s)))),
              tick := Suc (tick s),
              pending := pending s @ [AppendDefault]\<rparr>
      else s)"

definition accumulate_content :: "run \<Rightarrow> jsstring \<Rightarrow> run" where
  "accumulate_content s content =
     (let cleanContent = filter (\<lambda>c. \<not> isBoxChar c) content in
      if filter (\<lambda>c. \<not> isFiller c) cleanContent = [] then s
      else (let cleanContent' = trim cleanContent in
            if cleanContent' = [] then s
            else s\<lparr>pending := pending s @ [AppendContent cleanContent']\<rparr>))"

subsection \<open>The loop body\<close>

text \<open>
  The head of the body: \<open>None\<close> is a \<open>continue\<close> (the trimmed line does not start with
  \<open>data: \<close>, or nothing is left of it); otherwise the result is \<open>content\<close>.
\<close>

definition event_content :: "jsstring \<Rightarrow> jsstring option" where
  "event_content line =
     (let trimmedLine = trim line in
      if \<not> startsWith trimmedLine (js ''data: '') then None
      else (let content = cleanAnsi (trim (drop 6 trimmedLine)) in
            if content = [] then None else Some content))"

text \<open>
  The three blocks after the differential detection: the agent test, the status test,
  and the accumulation of content, each reached only when the one before it did not
  \<open>continue\<close>.
\<close>

definition handle_turns :: "env \<Rightarrow> run \<Rightarrow> jsstring \<Rightarrow> run" where
  "handle_turns env s content =
     (case detect_agent env s content of
        Some s' \<Rightarrow> s'
      | None \<Rightarrow>
          (case detect_status s content of
             Some s' \<Rightarrow> s'
           | None \<Rightarrow> accumulate_content (default_agent env s) content))"

text \<open>
  The whole body. The differential block does not end with a \<open>continue\<close>: the line
  goes on to the three tests whatever the block did. Nothing in the body throws: the
  updaters run later.
\<close>

definition process_line :: "env \<Rightarrow> run \<Rightarrow> jsstring \<Rightarrow> run" where
  "process_line env s line =
     (case event_content line of
        None \<Rightarrow> s
      | Some content \<Rightarrow> handle_turns env (detect_differential s content) content)"

section \<open>The read loop and \<open>startDiagnosis\<close>\<close>

fun for_lines :: "env \<Rightarrow> run \<Rightarrow> jsstring list \<Rightarrow> run" where
  "for_lines env s [] = s"
| "for_lines env s (line # lines) = for_lines env (process_line env s line) lines"

text \<open>
  One pass of the \<open>while\<close> loop on a chunk. A chunk is the text that
  \<open>decoder.decode(value, {stream: true})\<close> returns for it. The result is the new
  state with the new \<open>buffer\<close>.
\<close>

definition feed :: "env \<Rightarrow> run \<Rightarrow> jsstring \<Rightarrow> jsstring \<Rightarrow> run \<times> jsstring" where
  "feed env s buffer chunk =
     (let lines = split_newline (buffer @ chunk) in
      (for_lines env s (butlast lines), last lines))"

text \<open>
  The body of a response is the chunks its reader returns and how the reading ends:
  \<open>done\<close>, or a rejected \<open>read()\<close>. A body whose reader never ends is not modelled.
\<close>

datatype ending = Done | Rejected js_error

text \<open>
  How a run of the \<open>try\<close> block ends: the loop is left at \<open>done\<close>, or an error is
  thrown to the \<open>catch\<close> block, or a render threw and the component is gone.
\<close>

datatype outcome = Finished run | Thrown js_error run | Unmounted js_error run

fun final_state :: "outcome \<Rightarrow> run" where
  "final_state (Finished s) = s"
| "final_state (Thrown err s) = s"
| "final_state (Unmounted err s) = s"

text \<open>
  \<open>await reader.read()\<close>: the loop gives control back, and React may render before the
  read settles. \<open>renders k\<close> tells whether it does at the \<open>k\<close>-th read of the run.
\<close>

definition await_read :: "env \<Rightarrow> (nat \<Rightarrow> bool) \<Rightarrow> nat \<Rightarrow> run \<Rightarrow> (js_error \<times> run) + run" where
  "await_read env renders k s = (if renders k then render env s else Inr s)"

fun read_loop ::
  "env \<Rightarrow> (nat \<Rightarrow> bool) \<Rightarrow> nat \<Rightarrow> run \<Rightarrow> jsstring \<Rightarrow> jsstring list \<Rightarrow> ending \<Rightarrow> outcome" where
  "read_loop env renders k s buffer [] fin =
     (case await_read env renders k s of
        Inl (err, s') \<Rightarrow> Unmounted err s'
      | Inr s' \<Rightarrow> (case fin of Done \<Rightarrow> Finished s' | Rejected err \<Rightarrow> Thrown err s'))"
| "read_loop env renders k s buffer (chunk # chunks) fin =
     (case await_read env renders k s of
        Inl (err, s') \<Rightarrow> Unmounted err s'
      | Inr s' \<Rightarrow>
          (case feed env s' buffer chunk of
             (s'', buffer') \<Rightarrow> read_loop env renders (Suc k) s'' buffer' chunks fin))"

text \<open>What \<open>fetch\<close> gives: a rejection, or a response with its \<open>ok\<close>, \<open>status\<close> and body.\<close>

datatype response = FetchRejected js_error | Response bool nat "jsstring list" ending

record inputs =
  initial_info :: jsstring
  full_case :: jsstring
  ground_truth :: jsstring

text \<open>The decimal digits of a number, for the status in the message of the HTTP error.\<close>

fun decimal :: "nat \<Rightarrow> jsstring" where
  "decimal n = (if n < 10 then [of_nat (48 + n)] else decimal (n div 10) @ [of_nat (48 + n mod 10)])"

text \<open>The \<open>catch\<close> block.\<close>

definition catch_block :: "js_error \<Rightarrow> run \<Rightarrow> run" where
  "catch_block err s =
     (if err_name err = js ''AbortError''
      then s\<lparr>pending := pending s @ [AppendStopped]\<rparr>
      else s\<lparr>error := Some (js ''Failed to connect to backend: '' @ err_message err)\<rparr>)"

text \<open>The \<open>try\<close> block, from the state the setters before it have made.\<close>

definition try_block :: "env \<Rightarrow> (nat \<Rightarrow> bool) \<Rightarrow> response \<Rightarrow> run \<Rightarrow> outcome" where
  "try_block env renders resp s =
     (case resp of
        FetchRejected err \<Rightarrow> Thrown err s
      | Response ok status chunks fin \<Rightarrow>
          if \<not> ok then Thrown (JsError (js ''Error'') (js ''HTTP error! status: '' @ decimal status)) s
          else read_loop env renders 0 s [] chunks fin)"

definition started :: run where
  "started = \<lparr>messages = [], differential = None, isStreaming = True, error = None,
              abortControllerRef = True, currentAgentName = None, lastMessageId = None,
              tick = 0, pending = []\<rparr>"

text \<open>
  After the \<open>finally\<close> block the function returns and React renders what is still
  queued: the component state then is the result of the run. \<open>Inl\<close> is a run in which a
  render threw.
\<close>

definition settle :: "env \<Rightarrow> run \<Rightarrow> js_error + app" where
  "settle env s =
     (case render env s of
        Inl (err, s') \<Rightarrow> Inl err
      | Inr s' \<Rightarrow> Inr \<lparr>messages = messages s', differential = differential s', isStreaming = False,
                       error = error s', abortControllerRef = False\<rparr>)"

definition startDiagnosis :: "env \<Rightarrow> (nat \<Rightarrow> bool) \<Rightarrow> inputs \<Rightarrow> response \<Rightarrow> app \<Rightarrow> js_error + app" where
  "startDiagnosis env renders inp resp a =
     (if initial_info inp = [] \<or> full_case inp = []
      then Inr (a\<lparr>error := Some (js ''Please fill in the required fields.'')\<rparr>)
      else (case try_block env renders resp started of
              Finished s \<Rightarrow> settle env s
            | Thrown err s \<Rightarrow> settle env (catch_block err s)
            | Unmounted err s \<Rightarrow> Inl err))"

text \<open>
  \<open>stopDiagnosis\<close> calls \<open>abort()\<close> on the controller when the ref is set. The effect of
  \<open>abort()\<close> is the platform's: the \<open>read()\<close> that is pending after \<open>n\<close> chunks were
  read rejects with a DOMException named AbortError. \<open>stopDiagnosis a n resp\<close> is what
  the transport gives when the call is made at that moment and \<open>resp\<close> is what it would
  have given otherwise; a call after the body has ended changes nothing.
\<close>

definition abort_error :: js_error where
  "abort_error = JsError (js ''AbortError'') (js ''signal is aborted without reason'')"

definition stopDiagnosis :: "app \<Rightarrow> nat \<Rightarrow> response \<Rightarrow> response" where
  "stopDiagnosis a n resp =
     (if abortControllerRef a
      then (case resp of
              FetchRejected err \<Rightarrow> FetchRejected err
            | Response ok status chunks fin \<Rightarrow>
                if n \<le> length chunks then Response ok status (take n chunks) (Rejected abort_error)
                else Response ok status chunks fin)
      else resp)"

section \<open>Notions used in the statements\<close>

text \<open>
  A content is recognised as a differential snapshot when it holds one of the two
  markers and the pattern matches at least once: the two conditions under which the
  loop body calls \<open>setDifferential\<close>.
\<close>

definition recognized :: "jsstring \<Rightarrow> bool" where
  "recognized content =
     ((includes_str content TOP_MARKER \<or> includes_str content UPDATED_MARKER)
      \<and> dx_matches content \<noteq> [])"



text \<open>
  The condition of the status block.
\<close>

definition status_line :: "jsstring \<Rightarrow> bool" where
  "status_line content =
     (isStatus content \<and> length content < 150 \<and> \<not> includes_str content (js ''Agent Name''))"

text \<open>
  How the loop is left once the chunks are consumed: the last \<open>read()\<close> returns \<open>done\<close>
  or rejects.
\<close>

definition finish :: "ending \<Rightarrow> run \<Rightarrow> outcome" where
  "finish fin s = (case fin of Done \<Rightarrow> Finished s | Rejected err \<Rightarrow> Thrown err s)"

text \<open>
  No two consecutive lines of the content of an agent message are equal.
\<close>

fun no_repeat :: "message \<Rightarrow> bool" where
  "no_repeat (AgentTurn i a c t) = distinct_adj (split_newline c)"
| "no_repeat (StatusTurn i st t) = True"

text \<open>
  A later form of the same message: a status message is unchanged, an agent message keeps
  its id, agent and timestamp and its content only has more text at the end.
\<close>

fun extends :: "message \<Rightarrow> message \<Rightarrow> bool" where
  "extends (AgentTurn i a c t) m =
     (case m of AgentTurn i' a' c' t' \<Rightarrow> i' = i \<and> a' = a \<and> t' = t \<and> prefix c c'
      | StatusTurn i' st t' \<Rightarrow> False)"
| "extends (StatusTurn i st t) m = (m = StatusTurn i st t)"

text \<open>
  The later list holds every message of the earlier list at its position, in a later form.
\<close>

definition grows :: "message list \<Rightarrow> message list \<Rightarrow> bool" where
  "grows old new =
     (length old \<le> length new \<and> (\<forall>k \<in> {0 ..< length old}. extends (old ! k) (new ! k)))"

text \<open>
  A queued content line holds no line feed.
\<close>

fun clean_update :: "update \<Rightarrow> bool" where
  "clean_update (AppendContent l) = (LF \<notin> set l)"
| "clean_update u = True"

text \<open>
  The invariant of a run: no agent message repeats a line, and no queued content line
  holds a line feed.
\<close>

definition sound :: "run \<Rightarrow> bool" where
  "sound s = (list_all no_repeat (messages s) \<and> list_all clean_update (pending s))"

text \<open>
  The schedule in which React renders at every read.
\<close>

definition every_read :: "nat \<Rightarrow> bool" where
  "every_read k = True"

section \<open>Examples\<close>

text \<open>
  A clock for the examples: it advances by one millisecond at every reading.
\<close>

definition fixed_clock :: env where
  "fixed_clock k =
     \<lparr>date_now = 1700000000000 + int k, now_plus_random = of_nat k, locale_time = js ''09:30''\<rparr>"

text \<open>
  The contents of the example lines: two differential updates, a line with the chart glyph
  in front of the phrase of the first marker, the same with an update after it, a status
  line, a frame and a header.
\<close>

definition UPDATE_LUPUS :: jsstring where
  "UPDATE_LUPUS = [0xD83D, 0xDCCA] @ js '' Differential Diagnosis Updated: - Lupus: 42%''"

definition UPDATE_SARCOID :: jsstring where
  "UPDATE_SARCOID = [0xD83D, 0xDCCA] @ js '' Differential Diagnosis Updated: - Sarcoid: 30%''"



definition GATHERING :: jsstring where
  "GATHERING = [0xD83E, 0xDD14] @ js '' Gathering history...''"

definition BORDER :: jsstring where
  "BORDER = [0x2570, 0x2500, 0x2500, 0x2500, 0x2500, 0x2500, 0x2500, 0x256F]"

definition HEADER_HOUSE :: jsstring where
  "HEADER_HOUSE = [0x256D, 0x2500, 0x2500] @ js '' Agent Name: Dr. House '' @ [0x2500, 0x2500, 0x256E]"

text \<open>
  The state of a run after the header of Dr. House and a render, on the clock of the
  examples.
\<close>

definition AFTER_HOUSE :: run where
  "AFTER_HOUSE = started\<lparr>messages := [AgentTurn (Some (RandomId 0)) (Some (js ''Dr. House'')) []
                                          (js ''09:30'')],
                  currentAgentName := Some (js ''Dr. House''),
                  lastMessageId := Some (RandomId 0), tick := 2\<rparr>"

text \<open>
  A header and the same content line twice.
\<close>

definition VASCULITIS_LINES :: "jsstring list" where
  "VASCULITIS_LINES =
     [js ''data: '' @ HEADER_HOUSE, js ''data: Consider vasculitis.'', js ''data: Consider vasculitis.'']"

text \<open>
  Form inputs that pass the check, and the component before and during a run.
\<close>

definition VALID_INPUTS :: inputs where
  "VALID_INPUTS = \<lparr>initial_info = js ''fever'', full_case = js ''fever and rash'', ground_truth = []\<rparr>"

definition IDLE :: app where
  "IDLE = \<lparr>messages = [], differential = None, isStreaming = False, error = None,
           abortControllerRef = False\<rparr>"

definition STREAMING :: app where
  "STREAMING = \<lparr>messages = [], differential = None, isStreaming = True, error = None,
                abortControllerRef = True\<rparr>"

text \<open>
  A body of two chunks, and the same four lines in one chunk and in four.
\<close>

definition HOUSE_CHUNKS :: "jsstring list" where
  "HOUSE_CHUNKS = [js ''data: '' @ HEADER_HOUSE @ [LF], js ''data: Consider vasculitis.'' @ [LF]]"

definition ALPHA_BETA_ONE :: "jsstring list" where
  "ALPHA_BETA_ONE =
     [js ''data: Agent Name: Alpha'' @ [LF] @ js ''data: x'' @ [LF]
        @ js ''data: Agent Name: Beta'' @ [LF] @ js ''data: y'' @ [LF]]"

definition ALPHA_BETA_FOUR :: "jsstring list" where
  "ALPHA_BETA_FOUR =
     [js ''data: Agent Name: Alpha'' @ [LF], js ''data: x'' @ [LF],
      js ''data: Agent Name: Beta'' @ [LF], js ''data: y'' @ [LF]]"

section \<open>Facts about the string functions\<close>

lemma split_newline_nonempty: "split_newline s \<noteq> []"
  by (induction s) (auto split: list.splits)










section \<open>Facts about the handling of one line\<close>

lemma detect_differential_eq:
  "detect_differential s c =
     (if recognized c then s\<lparr>differential := Some \<lparr>items = topDiagnoses c, full = c\<rparr>\<rparr> else s)"
  by (simp add: detect_differential_def recognized_def)

lemma detect_differential_keeps:
  "messages (detect_differential s c) = messages s"
  "currentAgentName (detect_differential s c) = currentAgentName s"
  "lastMessageId (detect_differential s c) = lastMessageId s"
  "tick (detect_differential s c) = tick s"
  "pending (detect_differential s c) = pending s"
  "error (detect_differential s c) = error s"
  by (simp_all add: detect_differential_def)

lemma handle_turns_differential:
  "handle_turns env (s\<lparr>differential := d\<rparr>) c = (handle_turns env s c)\<lparr>differential := d\<rparr>"
  by (simp add: handle_turns_def detect_agent_def detect_status_def default_agent_def
      accumulate_content_def Let_def split: option.splits)

lemma handle_turns_keeps:
  "differential (handle_turns env s c) = differential s"
  "messages (handle_turns env s c) = messages s"
  "error (handle_turns env s c) = error s"
  by (simp_all add: handle_turns_def detect_agent_def detect_status_def default_agent_def
      accumulate_content_def Let_def split: option.splits)

lemma agent_at_prefix: "agent_at s = Some g \<Longrightarrow> prefix (js ''Agent Name:'') s"
  by (simp add: agent_at_def split: if_splits)

lemma includes_str_prefix: "prefix p s \<Longrightarrow> includes_str s p"
  by (cases s) auto

lemma agentMatch_includes: "agentMatch c = Some g \<Longrightarrow> includes_str c (js ''Agent Name'')"
proof (induction c)
  case Nil
  then show ?case by simp
next
  case (Cons a r)
  show ?case
  proof (cases "agent_at (a # r)")
    case None
    with Cons show ?thesis by simp
  next
    case (Some h)
    have "prefix (js ''Agent Name'') (js ''Agent Name:'')" by (simp add: js_def)
    with agent_at_prefix [OF Some] have "prefix (js ''Agent Name'') (a # r)"
      by (rule prefix_order.trans [rotated])
    then show ?thesis by simp
  qed
qed

lemma process_line_content:
  "event_content line = Some c \<Longrightarrow> process_line env s line = handle_turns env (detect_differential s c) c"
  by (simp add: process_line_def)

lemma process_line_eq:
  "event_content line = Some c \<Longrightarrow>
   process_line env s line = (handle_turns env s c)\<lparr>differential := differential (detect_differential s c)\<rparr>"
  by (simp add: process_line_def detect_differential_eq handle_turns_differential handle_turns_keeps)

lemma process_line_keeps:
  "messages (process_line env s line) = messages s"
  "error (process_line env s line) = error s"
  by (simp_all add: process_line_def handle_turns_keeps detect_differential_keeps split: option.splits)

lemma status_line_no_agent: "status_line c \<Longrightarrow> detect_agent env s c = None"
proof -
  assume "status_line c"
  then have "\<not> includes_str c (js ''Agent Name'')" by (simp add: status_line_def)
  then have "agentMatch c = None" using agentMatch_includes [of c] by (cases "agentMatch c") auto
  then show ?thesis by (simp add: detect_agent_def)
qed

lemma handle_turns_status:
  "status_line c \<Longrightarrow> handle_turns env s c = s\<lparr>pending := pending s @ [AppendStatus c]\<rparr>"
  by (simp add: handle_turns_def status_line_no_agent detect_status_def status_line_def)


section \<open>Facts about the render\<close>

lemma run_updates_append:
  "run_updates env cur lastId (q1 @ q2) st =
     (case run_updates env cur lastId q1 st of
        Inl err \<Rightarrow> Inl err
      | Inr st' \<Rightarrow> run_updates env cur lastId q2 st')"
  by (induction q1 arbitrary: st) (auto split: sum.splits)

lemma render_empty: "pending s = [] \<Longrightarrow> render env s = Inr s"
  by (simp add: render_def)

lemma render_differential:
  "render env (s\<lparr>differential := d\<rparr>) =
     map_sum (map_prod id (\<lambda>t. t\<lparr>differential := d\<rparr>)) (\<lambda>t. t\<lparr>differential := d\<rparr>) (render env s)"
  by (simp add: render_def split: sum.splits prod.splits)

lemma render_keeps:
  "differential (state_of (render env s)) = differential s"
  "error (state_of (render env s)) = error s"
  "currentAgentName (state_of (render env s)) = currentAgentName s"
  "lastMessageId (state_of (render env s)) = lastMessageId s"
  by (simp_all add: render_def split: sum.splits prod.splits)

lemma render_Inr_keeps:
  assumes "render env s = Inr r"
  shows "differential r = differential s" and "error r = error s"
    and "currentAgentName r = currentAgentName s" and "lastMessageId r = lastMessageId s"
    and "pending r = []" and "isStreaming r = isStreaming s"
    and "abortControllerRef r = abortControllerRef s"
  using assms by (auto simp: render_def split: sum.splits prod.splits)

text \<open>A render of a queue with one more updater: the render of the queue, then that updater.\<close>

lemma render_snoc:
  assumes "render env s = Inr r"
  shows "render env (s\<lparr>pending := pending s @ [u]\<rparr>) =
           (case run_update env (currentAgentName s) (lastMessageId s) u (messages r, tick r) of
              Inl err \<Rightarrow> Inl (err, s\<lparr>pending := pending s @ [u]\<rparr>)
            | Inr (newMessages, t) \<Rightarrow> Inr (r\<lparr>messages := newMessages, tick := t\<rparr>))"
  using assms
  by (auto simp: render_def run_updates_append split: sum.splits prod.splits)

lemma UPDATE_LUPUS_content: "event_content (js ''data: '' @ UPDATE_LUPUS) = Some UPDATE_LUPUS"
  by code_simp


lemma UPDATE_LUPUS_recognized: "recognized UPDATE_LUPUS"
  by code_simp

lemma UPDATE_LUPUS_status: "status_line UPDATE_LUPUS"
  by code_simp

lemma UPDATE_LUPUS_top: "topDiagnoses UPDATE_LUPUS = [\<lparr>diagnosis = js ''Lupus'', probability = js ''42%''\<rparr>]"
  by code_simp

lemma UPDATE_SARCOID_content: "event_content (js ''data: '' @ UPDATE_SARCOID) = Some UPDATE_SARCOID"
  by code_simp

lemma UPDATE_SARCOID_recognized: "recognized UPDATE_SARCOID"
  by code_simp

lemma UPDATE_SARCOID_top:
  "topDiagnoses UPDATE_SARCOID = [\<lparr>diagnosis = js ''Sarcoid'', probability = js ''30%''\<rparr>]"
  by code_simp

lemma process_line_status:
  "event_content line = Some c \<Longrightarrow> status_line c \<Longrightarrow>
   process_line env s line =
     s\<lparr>pending := pending s @ [AppendStatus c], differential := differential (detect_differential s c)\<rparr>"
  by (simp add: process_line_eq handle_turns_status)

lemma render_status:
  assumes "render env s = Inr r"
  shows "render env (s\<lparr>pending := pending s @ [AppendStatus c], differential := d\<rparr>) =
           Inr (r\<lparr>messages := messages r @
                      [StatusTurn (RandomId (now_plus_random (env (tick r)))) c (locale_time (env (tick r)))],
                    tick := Suc (tick r), differential := d\<rparr>)"
  using render_snoc [OF assms, of "AppendStatus c"]
  by (simp add: render_differential)



lemma UPDATE_LUPUS_render:
  "render fixed_clock (process_line fixed_clock started (js ''data: '' @ UPDATE_LUPUS)) =
     Inr (started\<lparr>messages := [StatusTurn (RandomId 0) UPDATE_LUPUS (js ''09:30'')], tick := 1,
                 differential := Some \<lparr>items = topDiagnoses UPDATE_LUPUS, full = UPDATE_LUPUS\<rparr>\<rparr>)"
proof -
  have r: "render fixed_clock started = Inr started" by (simp add: render_empty started_def)
  show ?thesis
    by (simp add: process_line_status [OF UPDATE_LUPUS_content UPDATE_LUPUS_status]
        render_status [OF r] detect_differential_eq UPDATE_LUPUS_recognized)
       (simp add: started_def fixed_clock_def)
qed


lemma render_idle: "pending r = [] \<Longrightarrow> r\<lparr>pending := []\<rparr> = r"
  by (cases r) simp



lemma GATHERING_content: "event_content (js ''data: '' @ GATHERING) = Some GATHERING"
  by code_simp

lemma GATHERING_status: "status_line GATHERING"
  by code_simp

lemma BORDER_facts:
  "event_content (js ''data: '' @ BORDER) = Some BORDER"
  "\<not> recognized BORDER"
  "agentMatch BORDER = None"
  "\<not> isStatus BORDER"
  "filter (\<lambda>c. \<not> isBoxChar c) BORDER = []"
  by code_simp+

section \<open>Frame lines\<close>

lemma includes_str_hd: "includes_str s p \<Longrightarrow> p \<noteq> [] \<Longrightarrow> hd p \<in> set s"
proof (induction s)
  case Nil
  then show ?case by simp
next
  case (Cons c r)
  then show ?case by (cases p) (auto simp: prefix_Cons)
qed

lemma status_scan_glyph: "status_scan n s \<Longrightarrow> \<exists>c \<in> set s. isStatusGlyph c"
  by (induction n s rule: status_scan.induct) auto

lemma box_not_glyph: "isBoxChar x \<Longrightarrow> \<not> isStatusGlyph x"
  by (auto simp: isBoxChar_def isStatusGlyph_def)

lemma border_line_skipped_with_agent:
  assumes "event_content line = Some c" and "list_all isBoxChar c"
    and "\<not> no_agent (currentAgentName s)"
  shows "process_line env s line = s"
proof -
  have box: "isBoxChar x" if "x \<in> set c" for x using assms(2) that by (simp add: list_all_iff)
  have "\<not> includes_str c TOP_MARKER"
    using includes_str_hd [of c TOP_MARKER] box [of "0xFFFD"]
    by (auto simp: TOP_MARKER_def isBoxChar_def)
  moreover have "\<not> includes_str c UPDATED_MARKER"
    using includes_str_hd [of c UPDATED_MARKER] box [of "0xD83D"]
    by (auto simp: UPDATED_MARKER_def isBoxChar_def)
  ultimately have d: "detect_differential s c = s" by (simp add: detect_differential_def)
  have "\<not> includes_str c (js ''Agent Name'')"
    using includes_str_hd [of c "js ''Agent Name''"] box [of "0x41"]
    by (auto simp: js_def isBoxChar_def)
  then have a: "agentMatch c = None" using agentMatch_includes [of c] by (cases "agentMatch c") auto
  have "\<not> isStatus c"
    using status_scan_glyph [of 5 c] box box_not_glyph by (auto simp: isStatus_def)
  then have st: "detect_status s c = None" by (simp add: detect_status_def)
  have f: "filter (\<lambda>x. \<not> isBoxChar x) c = []" using box by (simp add: filter_empty_conv)
  show ?thesis
    using assms(1,3) d a st f
    by (simp add: process_line_def handle_turns_def detect_agent_def default_agent_def
        accumulate_content_def)
qed





lemma render_error_update:
  "render env s = Inr r \<Longrightarrow> render env (s\<lparr>error := e\<rparr>) = Inr (r\<lparr>error := e\<rparr>)"
  by (auto simp: render_def split: sum.splits prod.splits)

section \<open>Facts about the read loop\<close>

lemma split_newline_Cons:
  "split_newline (c # r) =
     (if c = LF then [] # split_newline r
      else (c # hd (split_newline r)) # tl (split_newline r))"
  using split_newline_nonempty [of r] by (cases "split_newline r") auto

lemma split_newline_append:
  "split_newline (a @ b) = butlast (split_newline a) @ split_newline (last (split_newline a) @ b)"
proof (induction a)
  case Nil
  then show ?case by simp
next
  case (Cons c r)
  obtain p ps where r: "split_newline r = p # ps"
    using split_newline_nonempty [of r] by (cases "split_newline r") auto
  show ?case
  proof (cases "c = LF")
    case True
    with Cons r show ?thesis by simp
  next
    case False
    show ?thesis
    proof (cases ps)
      case Nil
      with False Cons r show ?thesis by (simp add: split_newline_Cons)
    next
      case (Cons q qs)
      with False Cons.IH r show ?thesis by (simp add: split_newline_Cons)
    qed
  qed
qed

lemma butlast_split_newline_append:
  "butlast (split_newline (a @ b)) =
     butlast (split_newline a) @ butlast (split_newline (last (split_newline a) @ b))"
  by (subst split_newline_append) (simp add: butlast_append split_newline_nonempty)

lemma last_split_newline_append:
  "last (split_newline (a @ b)) = last (split_newline (last (split_newline a) @ b))"
  by (subst split_newline_append) (simp add: split_newline_nonempty)

lemma for_lines_append:
  "for_lines env s (xs @ ys) = for_lines env (for_lines env s xs) ys"
  by (induction xs arbitrary: s) auto

lemma split_newline_pieces: "p \<in> set (split_newline x) \<Longrightarrow> LF \<notin> set p"
proof (induction x arbitrary: p)
  case Nil
  then show ?case by simp
next
  case (Cons c r)
  obtain q qs where r: "split_newline r = q # qs"
    using split_newline_nonempty [of r] by (cases "split_newline r") auto
  with Cons show ?case by (auto split: if_splits)
qed

lemma split_newline_no_LF: "LF \<notin> set b \<Longrightarrow> split_newline b = [b]"
  by (induction b) auto

lemma last_split_newline_no_LF: "LF \<notin> set (last (split_newline x))"
  by (rule split_newline_pieces [of _ x]) (simp add: split_newline_nonempty)

text \<open>
  The lines themselves do not depend on the chunks: when no render falls between the
  reads, the loop handles the pieces of the whole text before its last line feed.
\<close>

lemma read_loop_unrendered:
  assumes "\<forall>j. \<not> renders j" and "LF \<notin> set buffer"
  shows "read_loop env renders k s buffer chunks fin =
           finish fin (for_lines env s (butlast (split_newline (buffer @ concat chunks))))"
  using assms(2)
proof (induction chunks arbitrary: k s buffer)
  case Nil
  with assms(1) show ?case
    by (cases fin) (simp_all add: await_read_def split_newline_no_LF finish_def)
next
  case (Cons c cs)
  have aw: "await_read env renders j t = Inr t" for j t
    using assms(1) by (simp add: await_read_def)
  have "butlast (split_newline (buffer @ c @ concat cs)) =
          butlast (split_newline (buffer @ c)) @
          butlast (split_newline (last (split_newline (buffer @ c)) @ concat cs))"
    using butlast_split_newline_append [of "buffer @ c" "concat cs"] by simp
  then show ?case
    by (simp add: aw feed_def Let_def Cons.IH [OF last_split_newline_no_LF] for_lines_append)
qed

lemma line_reassembly_invariant:
  assumes "\<forall>j. \<not> renders j" and "concat chunks1 = concat chunks2"
  shows "startDiagnosis env renders inp (Response ok status chunks1 fin) a
           = startDiagnosis env renders inp (Response ok status chunks2 fin) a"
proof -
  have "read_loop env renders 0 started [] chunks1 fin = read_loop env renders 0 started [] chunks2 fin"
    using assms(2) by (simp add: read_loop_unrendered [OF assms(1)])
  then show ?thesis by (simp add: startDiagnosis_def try_block_def)
qed

section \<open>What the loop leaves alone\<close>

lemma for_lines_keeps:
  "messages (for_lines env s ls) = messages s"
  "error (for_lines env s ls) = error s"
  by (induction ls arbitrary: s) (simp_all add: process_line_keeps)

lemma await_read_error: "await_read env renders k s = Inr s' \<Longrightarrow> error s' = error s"
  by (auto simp: await_read_def dest: render_Inr_keeps(2) split: if_splits)

lemma read_loop_Finished_error:
  "read_loop env renders k s buffer chunks Done = Finished s' \<Longrightarrow> error s' = error s"
proof (induction chunks arbitrary: k s buffer)
  case Nil
  then show ?case by (auto split: sum.splits dest: await_read_error)
next
  case (Cons c cs)
  then show ?case
    by (auto simp: feed_def Let_def for_lines_keeps split: sum.splits dest!: await_read_error)
qed

lemma read_loop_Rejected:
  "read_loop env renders k s buffer chunks Done = Finished s' \<Longrightarrow>
   read_loop env renders k s buffer chunks (Rejected err) = Thrown err s'"
proof (induction chunks arbitrary: k s buffer)
  case Nil
  then show ?case by (auto split: sum.splits)
next
  case (Cons c cs)
  then show ?case by (auto simp: feed_def Let_def split: sum.splits)
qed

lemma render_snoc_stopped:
  assumes "render env s = Inr r"
  shows "render env (s\<lparr>pending := pending s @ [AppendStopped]\<rparr>) =
           Inr (r\<lparr>messages := messages r @
                      [StatusTurn (StampId (date_now (env (tick r)))) STOPPED (locale_time (env (tick r)))],
                    tick := Suc (tick r)\<rparr>)"
  using render_snoc [OF assms, of AppendStopped] by simp

lemma HOUSE_read:
  "read_loop fixed_clock every_read 0 started [] (take 1 HOUSE_CHUNKS) Done = Finished AFTER_HOUSE"
  by code_simp

section \<open>The content of agent messages\<close>

lemma extends_refl: "extends m m"
  by (cases m) auto

lemma extends_trans: "extends a b \<Longrightarrow> extends b c \<Longrightarrow> extends a c"
  by (cases a; cases b; cases c) auto

lemma grows_refl: "grows xs xs"
  by (simp add: grows_def extends_refl)

lemma grows_trans: "grows xs ys \<Longrightarrow> grows ys zs \<Longrightarrow> grows xs zs"
  unfolding grows_def
  by (auto intro: extends_trans)

lemma grows_snoc: "grows xs (xs @ [m])"
  by (simp add: grows_def nth_append extends_refl)

lemma grows_update:
  "k < length xs \<Longrightarrow> extends (xs ! k) m \<Longrightarrow> grows xs (xs[k := m])"
  by (auto simp: grows_def nth_list_update extends_refl)

lemma split_newline_line_feed:
  "LF \<notin> set p \<Longrightarrow> split_newline (p @ LF # q) = p # split_newline q"
  by (induction p) auto

lemma split_newline_snoc:
  assumes "LF \<notin> set l"
  shows "split_newline (c @ [LF] @ l) = split_newline c @ [l]"
proof -
  have "split_newline (c @ [LF] @ l) =
          butlast (split_newline c) @ split_newline (last (split_newline c) @ LF # l)"
    using split_newline_append [of c "[LF] @ l"] by simp
  also have "split_newline (last (split_newline c) @ LF # l) = [last (split_newline c), l]"
    using assms by (simp add: split_newline_line_feed [OF last_split_newline_no_LF] split_newline_no_LF)
  also have "butlast (split_newline c) @ [last (split_newline c), l] =
               (butlast (split_newline c) @ [last (split_newline c)]) @ [l]"
    by simp
  also have "\<dots> = split_newline c @ [l]"
    using split_newline_nonempty [of c] by simp
  finally show ?thesis .
qed

lemma findIndex_Some: "findIndex P xs = Some k \<Longrightarrow> k < length xs \<and> P (xs ! k)"
  by (induction xs arbitrary: k) (auto split: if_splits)

lemma list_all_update:
  "list_all P xs \<Longrightarrow> P m \<Longrightarrow> list_all P (xs[k := m])"
  using set_update_subset_insert [of xs k m] by (auto simp: list_all_iff)

lemma append_line_sound:
  assumes "append_line prev lastId l = Inr new" and "LF \<notin> set l" and "list_all no_repeat prev"
  shows "list_all no_repeat new \<and> grows prev new"
proof (cases "findIndex (\<lambda>m. msg_id m = lastId) prev")
  case None
  with assms show ?thesis by (simp add: append_line_def grows_refl)
next
  case (Some k)
  then have k: "k < length prev" by (simp add: findIndex_Some)
  show ?thesis
  proof (cases "prev ! k")
    case (StatusTurn i st t)
    with Some assms(1) show ?thesis by (simp add: append_line_def)
  next
    case (AgentTurn i a c t)
    have old: "distinct_adj (split_newline c)"
      using assms(3) k AgentTurn by (auto simp: list_all_length dest!: spec [of _ k])
    show ?thesis
    proof (cases "last (split_newline c) = l")
      case True
      with Some AgentTurn assms show ?thesis by (simp add: append_line_def grows_refl)
    next
      case False
      let ?c' = "if c \<noteq> [] then c @ [LF] @ l else l"
      have new: "new = prev[k := AgentTurn i a ?c' t]"
        using Some AgentTurn False assms(1) by (simp add: append_line_def)
      have "distinct_adj (split_newline ?c')"
      proof (cases "c = []")
        case True
        with assms(2) show ?thesis by (simp add: split_newline_no_LF)
      next
        case c: False
        have "split_newline (c @ [LF] @ l) = split_newline c @ [l]"
          using assms(2) by (rule split_newline_snoc)
        with c old False show ?thesis
          by (simp add: distinct_adj_append_iff split_newline_nonempty del: append.simps)
      qed
      then have "no_repeat (AgentTurn i a ?c' t)" by simp
      with assms(3) have 1: "list_all no_repeat new" unfolding new by (rule list_all_update)
      have "extends (prev ! k) (AgentTurn i a ?c' t)" using AgentTurn by simp
      with k have 2: "grows prev new" unfolding new by (rule grows_update)
      from 1 2 show ?thesis ..
    qed
  qed
qed

lemma append_line_duplicate:
  "findIndex (\<lambda>m. msg_id m = lastId) prev = Some k \<Longrightarrow> prev ! k = AgentTurn i a c t \<Longrightarrow>
   last (split_newline c) = l \<Longrightarrow> append_line prev lastId l = Inr prev"
  by (simp add: append_line_def)

lemma set_trim: "set (trim s) \<subseteq> set s"
proof -
  have "set (trim s) \<subseteq> set (dropWhile isWhiteSpace s)"
    unfolding trim_def using set_dropWhileD [of _ isWhiteSpace "rev (dropWhile isWhiteSpace s)"]
    by auto
  also have "\<dots> \<subseteq> set s" using set_dropWhileD [of _ isWhiteSpace s] by auto
  finally show ?thesis .
qed

lemma set_ansi_at: "ansi_at s = Some r \<Longrightarrow> set r \<subseteq> set s"
proof -
  assume a: "ansi_at s = Some r"
  then obtain e b t m where s: "s = e # b # t" and d: "dropWhile isSgrParam t = m # r"
    by (cases s; cases "tl s") (auto simp: ansi_at_def split: if_splits list.splits)
  have "set (dropWhile isSgrParam t) \<subseteq> set t" using set_dropWhileD [of _ isSgrParam t] by auto
  with s d show ?thesis by auto
qed

lemma set_cleanAnsi: "set (cleanAnsi s) \<subseteq> set s"
proof (induction s rule: cleanAnsi.induct)
  case 1
  then show ?case by simp
next
  case (2 c r)
  show ?case
  proof (cases "ansi_at (c # r)")
    case None
    with 2 show ?thesis by auto
  next
    case (Some r')
    with 2 set_ansi_at [OF Some] show ?thesis by auto
  qed
qed

lemma set_event_content: "event_content line = Some c \<Longrightarrow> set c \<subseteq> set line"
proof -
  assume "event_content line = Some c"
  then have c: "c = cleanAnsi (trim (drop 6 (trim line)))"
    by (simp add: event_content_def Let_def split: if_splits)
  have "set c \<subseteq> set (trim (drop 6 (trim line)))" unfolding c by (rule set_cleanAnsi)
  also have "\<dots> \<subseteq> set (drop 6 (trim line))" by (rule set_trim)
  also have "\<dots> \<subseteq> set (trim line)" by (rule set_drop_subset)
  also have "\<dots> \<subseteq> set line" by (rule set_trim)
  finally show ?thesis .
qed

lemma run_update_sound:
  assumes "run_update env cur lastId u (prev, t) = Inr (new, t')"
    and "clean_update u" and "list_all no_repeat prev"
  shows "list_all no_repeat new \<and> grows prev new"
proof (cases u)
  case (AppendContent l)
  with assms(1) have "append_line prev lastId l = Inr new" by (auto split: sum.splits)
  moreover from assms(2) AppendContent have "LF \<notin> set l" by simp
  ultimately show ?thesis using assms(3) by (rule append_line_sound)
qed (insert assms, auto simp: grows_snoc)

lemma run_updates_sound:
  assumes "run_updates env cur lastId us (prev, t) = Inr (new, t')"
    and "list_all clean_update us" and "list_all no_repeat prev"
  shows "list_all no_repeat new \<and> grows prev new"
  using assms
proof (induction us arbitrary: prev t)
  case Nil
  then show ?case by (simp add: grows_refl)
next
  case (Cons u us)
  from Cons.prems(1) obtain mid tm where u: "run_update env cur lastId u (prev, t) = Inr (mid, tm)"
    and rest: "run_updates env cur lastId us (mid, tm) = Inr (new, t')"
    by (auto split: sum.splits)
  from Cons.prems(2) have cu: "clean_update u" and cus: "list_all clean_update us" by simp_all
  from run_update_sound [OF u cu Cons.prems(3)]
  have m: "list_all no_repeat mid" and g: "grows prev mid" by simp_all
  from Cons.IH [OF rest cus m] g show ?case by (auto intro: grows_trans)
qed

lemma render_sound:
  assumes "list_all clean_update (pending s)" and "list_all no_repeat (messages s)"
  shows "list_all no_repeat (messages (state_of (render env s)))
         \<and> grows (messages s) (messages (state_of (render env s)))
         \<and> list_all clean_update (pending (state_of (render env s)))"
proof (cases "run_updates env (currentAgentName s) (lastMessageId s) (pending s) (messages s, tick s)")
  case (Inl err)
  with assms show ?thesis by (simp add: render_def grows_refl)
next
  case (Inr st)
  obtain new t' where st: "st = (new, t')" by (cases st)
  from run_updates_sound [OF Inr [unfolded st] assms] Inr st show ?thesis
    by (simp add: render_def)
qed

lemma handle_turns_clean:
  assumes "LF \<notin> set c" and "list_all clean_update (pending s)"
  shows "list_all clean_update (pending (handle_turns env s c))"
proof -
  have "set (trim (filter (\<lambda>x. \<not> isBoxChar x) c)) \<subseteq> set c"
    using set_trim [of "filter (\<lambda>x. \<not> isBoxChar x) c"] by auto
  with assms(1) have "LF \<notin> set (trim (filter (\<lambda>x. \<not> isBoxChar x) c))" by auto
  with assms(2) show ?thesis
    by (simp add: handle_turns_def detect_agent_def detect_status_def default_agent_def
        accumulate_content_def Let_def split: option.splits)
qed

lemma process_line_clean:
  assumes "LF \<notin> set line" and "list_all clean_update (pending s)"
  shows "list_all clean_update (pending (process_line env s line))"
proof (cases "event_content line")
  case None
  with assms(2) show ?thesis by (simp add: process_line_def)
next
  case (Some c)
  with assms(1) set_event_content [OF Some] have lf: "LF \<notin> set c" by auto
  from handle_turns_clean [OF lf, of "detect_differential s c" env] assms(2) Some show ?thesis
    by (simp add: process_line_def detect_differential_keeps)
qed

lemma for_lines_clean:
  assumes "\<forall>line \<in> set lines. LF \<notin> set line" and "list_all clean_update (pending s)"
  shows "list_all clean_update (pending (for_lines env s lines))"
  using assms by (induction lines arbitrary: s) (simp_all add: process_line_clean)

lemma loop_lines_no_LF: "\<forall>line \<in> set (butlast (split_newline x)). LF \<notin> set line"
  by (auto dest: in_set_butlastD split_newline_pieces)

lemma render_keeps_sound: "sound s \<Longrightarrow> sound (state_of (render env s))"
  using render_sound [of s env] by (simp add: sound_def)

lemma feed_keeps_sound: "sound s \<Longrightarrow> sound (fst (feed env s buffer chunk))"
  using for_lines_clean [OF loop_lines_no_LF, of s env "buffer @ chunk"]
  by (simp add: sound_def feed_def Let_def for_lines_keeps)

lemma await_read_keeps_sound:
  "sound s \<Longrightarrow> sound (state_of (await_read env renders k s))"
  by (simp add: await_read_def render_keeps_sound)

lemma read_loop_keeps_sound:
  "sound s \<Longrightarrow> sound (final_state (read_loop env renders k s buffer chunks fin))"
proof (induction chunks arbitrary: k s buffer)
  case Nil
  from await_read_keeps_sound [OF Nil, of env renders k] show ?case
    by (cases "await_read env renders k s"; cases fin) auto
next
  case (Cons c cs)
  show ?case
  proof (cases "await_read env renders k s")
    case (Inl x)
    with await_read_keeps_sound [OF Cons.prems, of env renders k] show ?thesis
      by (cases x) simp
  next
    case (Inr s')
    with await_read_keeps_sound [OF Cons.prems, of env renders k] have "sound s'" by simp
    then have "sound (fst (feed env s' buffer c))" by (rule feed_keeps_sound)
    from Cons.IH [OF this] Inr show ?thesis
      by (cases "feed env s' buffer c") simp
  qed
qed

lemma started_sound: "sound started"
  by (simp add: sound_def started_def)

lemma settle_no_repeat:
  assumes "sound s" and "settle env s = Inr a'"
  shows "list_all no_repeat (messages a')"
proof -
  from assms(2) obtain r where r: "render env s = Inr r" and a: "messages a' = messages r"
    by (auto simp: settle_def split: sum.splits)
  from render_keeps_sound [OF assms(1), of env] r a show ?thesis by (simp add: sound_def)
qed

lemma catch_block_sound: "sound s \<Longrightarrow> sound (catch_block err s)"
  by (simp add: sound_def catch_block_def)

lemma try_block_sound: "sound (final_state (try_block env renders resp started))"
  using started_sound read_loop_keeps_sound [OF started_sound]
  by (simp add: try_block_def split: response.splits)

lemma startDiagnosis_no_repeat:
  assumes "list_all no_repeat (messages a)" and "startDiagnosis env renders inp resp a = Inr a'"
  shows "list_all no_repeat (messages a')"
proof (cases "initial_info inp = [] \<or> full_case inp = []")
  case True
  with assms show ?thesis by (auto simp: startDiagnosis_def)
next
  case False
  note snd = try_block_sound [of env renders resp]
  show ?thesis
  proof (cases "try_block env renders resp started")
    case (Finished s)
    with snd assms(2) False show ?thesis
      by (auto simp: startDiagnosis_def intro: settle_no_repeat)
  next
    case (Thrown err s)
    with snd have "sound (catch_block err s)" by (simp add: catch_block_sound)
    with Thrown assms(2) False show ?thesis
      by (auto simp: startDiagnosis_def intro: settle_no_repeat)
  next
    case (Unmounted err s)
    with assms(2) False show ?thesis by (simp add: startDiagnosis_def)
  qed
qed

lemma VASCULITIS_LINES_no_LF: "\<forall>line \<in> set VASCULITIS_LINES. LF \<notin> set line"
  by code_simp

lemma VASCULITIS_LINES_run:
  "render fixed_clock (for_lines fixed_clock started VASCULITIS_LINES) =
     Inr (AFTER_HOUSE\<lparr>messages :=
            [AgentTurn (Some (RandomId 0)) (Some (js ''Dr. House'')) (js ''Consider vasculitis.'')
               (js ''09:30'')]\<rparr>)"
  by code_simp

section \<open>Chunk boundaries\<close>

text \<open>
  Claim C1. The result of a run should not depend on where the text is cut into chunks.
  When no render falls between the reads, the loop handles the lines of the whole text,
  however it is cut (\<open>read_loop_unrendered\<close>), and the result is the same for every cut
  (\<open>line_reassembly_invariant\<close>). But the updaters read \<open>lastMessageId\<close> and
  \<open>currentAgentName\<close> when they run, so a render between two reads changes what the
  updaters queued before it see. With a render at every read, the four lines
  \<open>data: Agent Name: Alpha\<close>, \<open>data: x\<close>, \<open>data: Agent Name: Beta\<close>, \<open>data: y\<close> give,
  in one chunk, two agent messages with the id made for Beta, the first with the agent
  Alpha and both content lines, the second with the agent Beta and no content; one line
  per chunk, they give Alpha with \<open>x\<close> and Beta with \<open>y\<close>, each under its own id.
\<close>

theorem chunk_boundary_divergence:
  "concat ALPHA_BETA_ONE = concat ALPHA_BETA_FOUR
   \<and> startDiagnosis fixed_clock every_read VALID_INPUTS (Response True 200 ALPHA_BETA_ONE Done) IDLE
       = Inr \<lparr>messages =
                 [AgentTurn (Some (RandomId 1)) (Some (js ''Alpha'')) (js ''x'' @ [LF] @ js ''y'')
                    (js ''09:30''),
                  AgentTurn (Some (RandomId 1)) (Some (js ''Beta'')) [] (js ''09:30'')],
               differential = None, isStreaming = False, error = None, abortControllerRef = False\<rparr>
   \<and> startDiagnosis fixed_clock every_read VALID_INPUTS (Response True 200 ALPHA_BETA_FOUR Done) IDLE
       = Inr \<lparr>messages =
                 [AgentTurn (Some (RandomId 0)) (Some (js ''Alpha'')) (js ''x'') (js ''09:30''),
                  AgentTurn (Some (RandomId 2)) (Some (js ''Beta'')) (js ''y'') (js ''09:30'')],
               differential = None, isStreaming = False, error = None, abortControllerRef = False\<rparr>"
  by code_simp

section \<open>The differential snapshot\<close>



text \<open>
  Claim C6. Of two recognised differential snapshot lines handled one after the other,
  the second decides the snapshot alone: after the first line the snapshot is the one
  parsed from the first, and after the second it is the items and the text parsed from
  the second, whether or not a render falls between the two lines, and the render after
  both shows it. The example replaces (Lupus, 42%) by (Sarcoid, 30%).
\<close>

theorem replace_not_merge:
  assumes "event_content line1 = Some content1" and "recognized content1"
    and "event_content line2 = Some content2" and "recognized content2"
    and "process_line env s line1 = s1"
  shows "differential s1 = Some \<lparr>items = topDiagnoses content1, full = content1\<rparr>
         \<and> differential (process_line env s1 line2)
             = Some \<lparr>items = topDiagnoses content2, full = content2\<rparr>
         \<and> differential (process_line env (state_of (render env s1)) line2)
             = Some \<lparr>items = topDiagnoses content2, full = content2\<rparr>
         \<and> differential (state_of (render env (for_lines env s [line1, line2])))
             = Some \<lparr>items = topDiagnoses content2, full = content2\<rparr>"
proof -
  have "differential (process_line env t line) = Some \<lparr>items = topDiagnoses c, full = c\<rparr>"
    if "event_content line = Some c" "recognized c" for t line c
    using that by (simp add: process_line_eq detect_differential_eq)
  from this [OF assms(1,2), of s] this [OF assms(3,4)] assms(5) show ?thesis
    by (simp add: render_keeps)
qed

theorem replace_not_merge_witness:
  "event_content (js ''data: '' @ UPDATE_LUPUS) = Some UPDATE_LUPUS \<and> recognized UPDATE_LUPUS
   \<and> event_content (js ''data: '' @ UPDATE_SARCOID) = Some UPDATE_SARCOID \<and> recognized UPDATE_SARCOID
   \<and> differential (process_line fixed_clock started (js ''data: '' @ UPDATE_LUPUS))
       = Some \<lparr>items = [\<lparr>diagnosis = js ''Lupus'', probability = js ''42%''\<rparr>], full = UPDATE_LUPUS\<rparr>
   \<and> differential (process_line fixed_clock
         (process_line fixed_clock started (js ''data: '' @ UPDATE_LUPUS))
         (js ''data: '' @ UPDATE_SARCOID))
       = Some \<lparr>items = [\<lparr>diagnosis = js ''Sarcoid'', probability = js ''30%''\<rparr>], full = UPDATE_SARCOID\<rparr>"
  using replace_not_merge [OF UPDATE_LUPUS_content UPDATE_LUPUS_recognized
      UPDATE_SARCOID_content UPDATE_SARCOID_recognized refl, of fixed_clock started]
  by (simp add: UPDATE_LUPUS_top UPDATE_SARCOID_top UPDATE_LUPUS_content UPDATE_LUPUS_recognized
        UPDATE_SARCOID_content UPDATE_SARCOID_recognized)




text \<open>
  Claim C2, as amended. A recognised differential snapshot line replaces the snapshot
  and is then handled like any other line, because the differential block does not end
  with a \<open>continue\<close>: the state it leaves is the one that the agent test, the status
  test and the accumulation of content leave for that content, with the snapshot
  replaced, and so are the messages after the next render. In particular a recognised
  line that passes the status test appends one status message that carries the line.
\<close>

theorem differential_line_falls_through:
  assumes "event_content line = Some content" and "recognized content"
  shows "process_line env s line
           = (handle_turns env s content)
               \<lparr>differential := Some \<lparr>items = topDiagnoses content, full = content\<rparr>\<rparr>
         \<and> messages (state_of (render env (process_line env s line)))
             = messages (state_of (render env (handle_turns env s content)))
         \<and> (status_line content \<and> render env s = Inr r \<longrightarrow>
               (\<exists>r'. render env (process_line env s line) = Inr r'
                  \<and> messages r' = messages r @
                       [StatusTurn (RandomId (now_plus_random (env (tick r)))) content
                          (locale_time (env (tick r)))]))"
proof -
  have 1: "process_line env s line
           = (handle_turns env s content)
               \<lparr>differential := Some \<lparr>items = topDiagnoses content, full = content\<rparr>\<rparr>"
    using assms by (simp add: process_line_eq detect_differential_eq)
  have 2: "messages (state_of (render env (process_line env s line)))
             = messages (state_of (render env (handle_turns env s content)))"
    unfolding 1 render_differential by (cases "render env (handle_turns env s content)") auto
  have 3: "\<exists>r'. render env (process_line env s line) = Inr r'
                  \<and> messages r' = messages r @
                       [StatusTurn (RandomId (now_plus_random (env (tick r)))) content
                          (locale_time (env (tick r)))]"
    if "status_line content" "render env s = Inr r"
    using that assms(1) by (simp add: process_line_status render_status)
  from 1 2 3 show ?thesis by blast
qed

theorem differential_line_falls_through_witness:
  "event_content (js ''data: '' @ UPDATE_LUPUS) = Some UPDATE_LUPUS \<and> recognized UPDATE_LUPUS
   \<and> status_line UPDATE_LUPUS \<and> render fixed_clock started = Inr started
   \<and> differential (process_line fixed_clock started (js ''data: '' @ UPDATE_LUPUS))
       = Some \<lparr>items = [\<lparr>diagnosis = js ''Lupus'', probability = js ''42%''\<rparr>], full = UPDATE_LUPUS\<rparr>
   \<and> messages (state_of (render fixed_clock (process_line fixed_clock started (js ''data: '' @ UPDATE_LUPUS))))
       = [StatusTurn (RandomId 0) UPDATE_LUPUS (js ''09:30'')]"
proof -
  have r: "render fixed_clock started = Inr started" by (simp add: render_empty started_def)
  from differential_line_falls_through [OF UPDATE_LUPUS_content UPDATE_LUPUS_recognized,
      of fixed_clock started started]
  have d: "process_line fixed_clock started (js ''data: '' @ UPDATE_LUPUS)
           = (handle_turns fixed_clock started UPDATE_LUPUS)
               \<lparr>differential := Some \<lparr>items = topDiagnoses UPDATE_LUPUS, full = UPDATE_LUPUS\<rparr>\<rparr>"
    and m: "status_line UPDATE_LUPUS \<and> render fixed_clock started = Inr started \<longrightarrow>
               (\<exists>r'. render fixed_clock (process_line fixed_clock started (js ''data: '' @ UPDATE_LUPUS)) = Inr r'
                  \<and> messages r' = messages started @
                       [StatusTurn (RandomId (now_plus_random (fixed_clock (tick started)))) UPDATE_LUPUS
                          (locale_time (fixed_clock (tick started)))])"
    by blast+
  from m UPDATE_LUPUS_status r
  have "messages (state_of (render fixed_clock (process_line fixed_clock started (js ''data: '' @ UPDATE_LUPUS))))
          = [StatusTurn (RandomId 0) UPDATE_LUPUS (js ''09:30'')]"
    by (auto simp: started_def fixed_clock_def)
  moreover from d have "differential (process_line fixed_clock started (js ''data: '' @ UPDATE_LUPUS))
       = Some \<lparr>items = [\<lparr>diagnosis = js ''Lupus'', probability = js ''42%''\<rparr>], full = UPDATE_LUPUS\<rparr>"
    by (simp add: UPDATE_LUPUS_top)
  ultimately show ?thesis
    using r UPDATE_LUPUS_content UPDATE_LUPUS_recognized UPDATE_LUPUS_status by simp
qed

text \<open>
  The claim as first stated, that a recognised line creates or changes no turn, fails on
  the line \<open>data: \<dots> Differential Diagnosis Updated: - Lupus: 42%\<close>: from the start
  state of a run it queues the updater of a status message, and the render shows one
  status message.
\<close>

theorem differential_line_terminal_counterexample:
  "event_content (js ''data: '' @ UPDATE_LUPUS) = Some UPDATE_LUPUS \<and> recognized UPDATE_LUPUS
   \<and> messages started = [] \<and> pending started = []
   \<and> pending (process_line fixed_clock started (js ''data: '' @ UPDATE_LUPUS)) = [AppendStatus UPDATE_LUPUS]
   \<and> messages (state_of (render fixed_clock (process_line fixed_clock started (js ''data: '' @ UPDATE_LUPUS))))
       = [StatusTurn (RandomId 0) UPDATE_LUPUS (js ''09:30'')]"
proof -
  have s: "messages started = []" "pending started = []" by (simp_all add: started_def)
  have p: "pending (process_line fixed_clock started (js ''data: '' @ UPDATE_LUPUS)) = [AppendStatus UPDATE_LUPUS]"
    by (simp add: process_line_status [OF UPDATE_LUPUS_content UPDATE_LUPUS_status] s)
  have m: "messages (state_of (render fixed_clock (process_line fixed_clock started (js ''data: '' @ UPDATE_LUPUS))))
       = [StatusTurn (RandomId 0) UPDATE_LUPUS (js ''09:30'')]"
    by (simp add: UPDATE_LUPUS_render)
  from s p m UPDATE_LUPUS_content UPDATE_LUPUS_recognized show ?thesis by simp
qed

section \<open>Agent headers, status lines and frame lines\<close>




text \<open>
  Claim C9. A line that passes the status test appends a status message that carries
  its content, after the messages that the updaters queued before it leave; handled
  twice in a row, with or without a render between, the same line appends two status
  messages. The example is the status line \<open>data: \<dots> Gathering history...\<close>.
\<close>

theorem status_lines_not_deduplicated:
  assumes "event_content line = Some content" and "status_line content"
    and "render env s = Inr r"
  shows "\<exists>r1 r2. render env (process_line env s line) = Inr r1
           \<and> messages r1 = messages r @
               [StatusTurn (RandomId (now_plus_random (env (tick r)))) content (locale_time (env (tick r)))]
           \<and> render env (for_lines env s [line, line]) = Inr r2
           \<and> render env (process_line env r1 line) = Inr r2
           \<and> messages r2 = messages r @
               [StatusTurn (RandomId (now_plus_random (env (tick r)))) content (locale_time (env (tick r))),
                StatusTurn (RandomId (now_plus_random (env (Suc (tick r))))) content
                  (locale_time (env (Suc (tick r))))]"
proof -
  let ?d = "differential (detect_differential s content)"
  let ?t1 = "StatusTurn (RandomId (now_plus_random (env (tick r)))) content (locale_time (env (tick r)))"
  let ?t2 = "StatusTurn (RandomId (now_plus_random (env (Suc (tick r))))) content
               (locale_time (env (Suc (tick r))))"
  let ?r1 = "r\<lparr>messages := messages r @ [?t1], tick := Suc (tick r), differential := ?d\<rparr>"
  let ?r2 = "r\<lparr>messages := messages r @ [?t1, ?t2], tick := Suc (Suc (tick r)), differential := ?d\<rparr>"
  note step = process_line_status [OF assms(1,2)]
  have 1: "render env (process_line env s line) = Inr ?r1"
    by (simp add: step render_status [OF assms(3)])
  have d: "differential (detect_differential t content) = ?d" if "differential t = ?d" for t
    using that by (simp add: detect_differential_def)
  have p: "pending r = []" using assms(3) by (rule render_Inr_keeps)
  have i: "r\<lparr>pending := []\<rparr> = r" using p by (rule render_idle)
  have 2: "render env (process_line env ?r1 line) = Inr ?r2"
    using i by (simp add: step render_def p d)
  have "process_line env (process_line env s line) line =
          (process_line env s line)\<lparr>pending := pending (process_line env s line) @ [AppendStatus content],
             differential := ?d\<rparr>"
    by (simp add: step d)
  then have 3: "render env (for_lines env s [line, line]) = Inr ?r2"
    by (simp add: render_status [OF 1])
  from 1 2 3 show ?thesis by (intro exI [of _ ?r1] exI [of _ ?r2]) simp
qed

theorem status_lines_not_deduplicated_witness:
  "event_content (js ''data: '' @ GATHERING) = Some GATHERING \<and> status_line GATHERING
   \<and> render fixed_clock started = Inr started
   \<and> messages (state_of (render fixed_clock
         (for_lines fixed_clock started [js ''data: '' @ GATHERING, js ''data: '' @ GATHERING])))
       = [StatusTurn (RandomId 0) GATHERING (js ''09:30''), StatusTurn (RandomId 1) GATHERING (js ''09:30'')]"
proof -
  have r: "render fixed_clock started = Inr started" by (simp add: render_empty started_def)
  from status_lines_not_deduplicated [OF GATHERING_content GATHERING_status r]
  obtain r2 where "render fixed_clock
         (for_lines fixed_clock started [js ''data: '' @ GATHERING, js ''data: '' @ GATHERING]) = Inr r2"
    and "messages r2 = messages started @
               [StatusTurn (RandomId (now_plus_random (fixed_clock (tick started)))) GATHERING
                  (locale_time (fixed_clock (tick started))),
                StatusTurn (RandomId (now_plus_random (fixed_clock (Suc (tick started))))) GATHERING
                  (locale_time (fixed_clock (Suc (tick started))))]"
    by blast
  then have "messages (state_of (render fixed_clock
         (for_lines fixed_clock started [js ''data: '' @ GATHERING, js ''data: '' @ GATHERING])))
       = [StatusTurn (RandomId 0) GATHERING (js ''09:30''), StatusTurn (RandomId 1) GATHERING (js ''09:30'')]"
    by (simp add: started_def fixed_clock_def)
  with r GATHERING_content GATHERING_status show ?thesis by simp
qed

text \<open>
  Claim C3. A line that holds frame characters only should leave the messages as they
  are in every state. It does when an agent is current
  (\<open>border_line_skipped_with_agent\<close>). In the start state of a run no agent is current,
  and the loop body queues the updater of the default agent before it finds that nothing
  but the frame is on the line: after the line \<open>data: \<close> followed by a frame of eight
  characters, the render shows one agent message of System Orchestrator with empty
  content.
\<close>

theorem border_line_starts_turn:
  "process_line env started (js ''data: '' @ BORDER) =
     started\<lparr>currentAgentName := Some (js ''System Orchestrator''),
             lastMessageId := Some (SystemId (date_now (env 0))),
             tick := 1, pending := [AppendDefault]\<rparr>
   \<and> render env (process_line env started (js ''data: '' @ BORDER)) =
       Inr (started\<lparr>messages :=
                      [AgentTurn (Some (SystemId (date_now (env 0)))) (Some (js ''System Orchestrator'')) []
                         (locale_time (env 1))],
                   currentAgentName := Some (js ''System Orchestrator''),
                   lastMessageId := Some (SystemId (date_now (env 0))),
                   tick := 2\<rparr>)"
  by (simp add: process_line_content [OF BORDER_facts(1)] detect_differential_eq BORDER_facts
      handle_turns_def detect_agent_def detect_status_def default_agent_def no_agent_def
      accumulate_content_def started_def render_def)

section \<open>The content of a turn\<close>

text \<open>
  Claim C4. From a state in which no agent message has two equal consecutive lines and
  no queued content line holds a line feed, handling any lines (none of which holds a
  line feed, as the pieces of a split never do) and rendering leaves such a state, and
  every message that was there is still there, at its position, with its content
  unchanged or longer at the end. Hence no state that the read loop of a run reaches, on
  any chunks and with renders at any reads, has an agent message with two equal
  consecutive lines, and neither has the result of a run. The updater that appends a
  line leaves the messages as they are when the line equals the last line of the content
  of the message it finds. The example handles the same content line twice after a
  header: the content holds it once.
\<close>

theorem adjacent_duplicates_suppressed:
  assumes "\<forall>line \<in> set lines. LF \<notin> set line" and "list_all no_repeat (messages s)"
    and "list_all clean_update (pending s)"
  shows "list_all no_repeat (messages (state_of (render env (for_lines env s lines))))
         \<and> grows (messages s) (messages (state_of (render env (for_lines env s lines))))
         \<and> list_all no_repeat (messages (final_state (read_loop env renders 0 started [] chunks fin)))
         \<and> (list_all no_repeat (messages a) \<and> startDiagnosis env renders inp resp a = Inr a'
              \<longrightarrow> list_all no_repeat (messages a'))
         \<and> (findIndex (\<lambda>m. msg_id m = lastId) prev = Some k
              \<and> prev ! k = AgentTurn i ag c t \<and> last (split_newline c) = l
              \<longrightarrow> append_line prev lastId l = Inr prev)"
proof -
  have q: "list_all clean_update (pending (for_lines env s lines))"
    using assms(1,3) by (rule for_lines_clean)
  have m: "list_all no_repeat (messages (for_lines env s lines))"
    using assms(2) by (simp add: for_lines_keeps)
  from render_sound [OF q m, of env]
  have 1: "list_all no_repeat (messages (state_of (render env (for_lines env s lines))))"
    and 2: "grows (messages s) (messages (state_of (render env (for_lines env s lines))))"
    by (simp_all add: for_lines_keeps)
  have 3: "list_all no_repeat (messages (final_state (read_loop env renders 0 started [] chunks fin)))"
    using read_loop_keeps_sound [OF started_sound, of env renders 0 "[]" chunks fin]
    by (simp add: sound_def)
  from 1 2 3 show ?thesis
    by (auto intro: append_line_duplicate startDiagnosis_no_repeat)
qed

theorem adjacent_duplicates_suppressed_witness:
  "LF \<notin> set (concat VASCULITIS_LINES) \<and> list_all no_repeat (messages started)
   \<and> list_all clean_update (pending started)
   \<and> pending (for_lines fixed_clock started VASCULITIS_LINES)
       = [AppendAgent (js ''Dr. House''), AppendContent (js ''Consider vasculitis.''),
          AppendContent (js ''Consider vasculitis.'')]
   \<and> messages (state_of (render fixed_clock (for_lines fixed_clock started VASCULITIS_LINES)))
       = [AgentTurn (Some (RandomId 0)) (Some (js ''Dr. House'')) (js ''Consider vasculitis.'')
            (js ''09:30'')]
   \<and> list_all no_repeat (messages (state_of (render fixed_clock (for_lines fixed_clock started VASCULITIS_LINES))))
   \<and> append_line [AgentTurn (Some (RandomId 0)) (Some (js ''Dr. House'')) (js ''Consider vasculitis.'')
                    (js ''09:30'')]
         (Some (RandomId 0)) (js ''Consider vasculitis.'')
       = Inr [AgentTurn (Some (RandomId 0)) (Some (js ''Dr. House'')) (js ''Consider vasculitis.'')
                (js ''09:30'')]"
proof -
  let ?m = "AgentTurn (Some (RandomId 0)) (Some (js ''Dr. House'')) (js ''Consider vasculitis.'')
              (js ''09:30'')"
  have i: "list_all no_repeat (messages started)" and j: "list_all clean_update (pending started)"
    by (simp_all add: started_def)
  have f: "findIndex (\<lambda>m. msg_id m = Some (RandomId 0)) [?m] = Some 0" by simp
  have l: "last (split_newline (js ''Consider vasculitis.'')) = js ''Consider vasculitis.''"
    by code_simp
  have p: "pending (for_lines fixed_clock started VASCULITIS_LINES)
       = [AppendAgent (js ''Dr. House''), AppendContent (js ''Consider vasculitis.''),
          AppendContent (js ''Consider vasculitis.'')]"
    by code_simp
  from adjacent_duplicates_suppressed [OF VASCULITIS_LINES_no_LF i j,
      of fixed_clock every_read "[]" Done IDLE VALID_INPUTS "FetchRejected abort_error" IDLE
         "Some (RandomId 0)" "[?m]" 0 "Some (RandomId 0)" "Some (js ''Dr. House'')"
         "js ''Consider vasculitis.''" "js ''09:30''" "js ''Consider vasculitis.''"]
  have "list_all no_repeat (messages (state_of (render fixed_clock (for_lines fixed_clock started VASCULITIS_LINES))))"
    and "append_line [?m] (Some (RandomId 0)) (js ''Consider vasculitis.'') = Inr [?m]"
    using f l by simp_all
  moreover have "LF \<notin> set (concat VASCULITIS_LINES)"
    using VASCULITIS_LINES_no_LF by simp
  ultimately show ?thesis
    using i j p by (simp add: VASCULITIS_LINES_run)
qed

section \<open>Cancellation\<close>

text \<open>
  Claim C8. When \<open>stopDiagnosis\<close> is called during a run, after \<open>n\<close> chunks were read
  and handled, the run ends with the messages that those chunks leave once rendered and
  one more, a status message with the text of the stop marker, with the snapshot it had,
  with no error message, and with \<open>isStreaming\<close> off. A rejection of the same \<open>read()\<close>
  under any other name appends nothing and sets the error message instead.
\<close>

theorem cancellation_leaves_marker:
  assumes "initial_info inp \<noteq> []" and "full_case inp \<noteq> []"
    and "abortControllerRef b" and "n \<le> length chunks"
    and "read_loop env renders 0 started [] (take n chunks) Done = Finished s"
    and "render env s = Inr r"
  shows "startDiagnosis env renders inp (stopDiagnosis b n (Response True status chunks fin)) a
           = Inr \<lparr>messages = messages r @
                    [StatusTurn (StampId (date_now (env (tick r)))) STOPPED (locale_time (env (tick r)))],
                  differential = differential r, isStreaming = False, error = None,
                  abortControllerRef = False\<rparr>
         \<and> (err_name err \<noteq> js ''AbortError'' \<longrightarrow>
               startDiagnosis env renders inp (Response True status (take n chunks) (Rejected err)) a
                 = Inr \<lparr>messages = messages r, differential = differential r, isStreaming = False,
                        error = Some (js ''Failed to connect to backend: '' @ err_message err),
                        abortControllerRef = False\<rparr>)"
proof -
  have e: "error s = None"
    using read_loop_Finished_error [OF assms(5)] by (simp add: started_def)
  have er: "error r = None" using render_Inr_keeps(2) [OF assms(6)] e by simp
  have t: "read_loop env renders 0 started [] (take n chunks) (Rejected x) = Thrown x s" for x
    using assms(5) by (rule read_loop_Rejected)
  have n: "err_name abort_error = js ''AbortError''" by (simp add: abort_error_def)
  have 1: "startDiagnosis env renders inp (stopDiagnosis b n (Response True status chunks fin)) a
           = Inr \<lparr>messages = messages r @
                    [StatusTurn (StampId (date_now (env (tick r)))) STOPPED (locale_time (env (tick r)))],
                  differential = differential r, isStreaming = False, error = None,
                  abortControllerRef = False\<rparr>"
    using assms(1-4) er n
    by (simp add: startDiagnosis_def stopDiagnosis_def try_block_def t catch_block_def settle_def
        render_snoc_stopped [OF assms(6)])
  have 2: "startDiagnosis env renders inp (Response True status (take n chunks) (Rejected err)) a
                 = Inr \<lparr>messages = messages r, differential = differential r, isStreaming = False,
                        error = Some (js ''Failed to connect to backend: '' @ err_message err),
                        abortControllerRef = False\<rparr>"
    if "err_name err \<noteq> js ''AbortError''"
    using assms(1,2) that
    by (simp add: startDiagnosis_def try_block_def t catch_block_def settle_def
        render_error_update [OF assms(6)])
  from 1 2 show ?thesis by blast
qed

theorem cancellation_leaves_marker_witness:
  "initial_info VALID_INPUTS \<noteq> [] \<and> full_case VALID_INPUTS \<noteq> [] \<and> abortControllerRef STREAMING
   \<and> (1::nat) \<le> length HOUSE_CHUNKS
   \<and> read_loop fixed_clock every_read 0 started [] (take 1 HOUSE_CHUNKS) Done = Finished AFTER_HOUSE
   \<and> render fixed_clock AFTER_HOUSE = Inr AFTER_HOUSE
   \<and> startDiagnosis fixed_clock every_read VALID_INPUTS
         (stopDiagnosis STREAMING 1 (Response True 200 HOUSE_CHUNKS Done)) IDLE
       = Inr \<lparr>messages = [AgentTurn (Some (RandomId 0)) (Some (js ''Dr. House'')) [] (js ''09:30''),
                          StatusTurn (StampId 1700000000002) STOPPED (js ''09:30'')],
              differential = None, isStreaming = False, error = None, abortControllerRef = False\<rparr>"
proof -
  have h1: "initial_info VALID_INPUTS \<noteq> []" and h2: "full_case VALID_INPUTS \<noteq> []"
    by (simp_all add: VALID_INPUTS_def js_def)
  have h3: "abortControllerRef STREAMING" by (simp add: STREAMING_def)
  have h4: "(1::nat) \<le> length HOUSE_CHUNKS" by (simp add: HOUSE_CHUNKS_def)
  have h6: "render fixed_clock AFTER_HOUSE = Inr AFTER_HOUSE"
    by (simp add: render_empty AFTER_HOUSE_def started_def)
  from cancellation_leaves_marker [OF h1 h2 h3 h4 HOUSE_read h6, of 200 Done IDLE]
  have "startDiagnosis fixed_clock every_read VALID_INPUTS
         (stopDiagnosis STREAMING 1 (Response True 200 HOUSE_CHUNKS Done)) IDLE
       = Inr \<lparr>messages = [AgentTurn (Some (RandomId 0)) (Some (js ''Dr. House'')) [] (js ''09:30''),
                          StatusTurn (StampId 1700000000002) STOPPED (js ''09:30'')],
              differential = None, isStreaming = False, error = None, abortControllerRef = False\<rparr>"
    by (simp add: AFTER_HOUSE_def started_def fixed_clock_def)
  with h1 h2 h3 h4 HOUSE_read h6 show ?thesis by simp
qed

end
